theory Spec2Isabelle
  imports Main
begin

section \<open>Headless search with optional Tor rotation: a model of Main.py\<close>

text \<open>
  The script drives three external libraries (argparse, stem, playwright). The model
  takes the parsed command line as a record, and an environment that decides the
  outcome of every library call the script makes on the way to a browser session and
  inside the search task. A run is the list of observable events (library calls and
  console lines, in program order) together with the exception that left the function,
  if any.

  Scope of the environment: the import of stem, the environment variable, connecting
  and authenticating to the control port, the NEWNYM signal, launching the browser,
  opening the context, and every page operation of the search task may raise. The
  calls \<open>print\<close>, \<open>time.sleep\<close>, entering and leaving \<open>sync_playwright()\<close> and the
  three release calls \<open>context.close()\<close>, \<open>browser.close()\<close>, \<open>controller.close()\<close> are
  taken to return normally. Only subclasses of Python's \<open>Exception\<close> are modelled.
\<close>

subsection \<open>Exceptions, events, runs\<close>

datatype exn =
    PlaywrightTimeoutError string
  | RuntimeError string
  | ZeroDivisionError
  | OtherException string

fun str_exn :: "exn \<Rightarrow> string" where
  "str_exn (PlaywrightTimeoutError m) = m"
| "str_exn (RuntimeError m) = m"
| "str_exn ZeroDivisionError = ''integer modulo by zero''"
| "str_exn (OtherException m) = m"

type_synonym handle = nat

datatype event =
    FromPort nat
  | Authenticate string
  | LogAuthenticated
  | SignalNewnym
  | LogNewnymSent
  | LogNewnymFailed exn
  | Sleep nat
  | PlaywrightStart
  | PlaywrightStop
  | LogIteration int int "string option"
  | Launch "string option" "handle option"
  | NewContext handle "handle option"
  | ContextClose handle
  | BrowserClose handle
  | LogTimeout exn
  | NewPage handle
  | Goto string nat
  | QuerySelector string
  | Click string
  | Fill string string
  | Press string string
  | WaitForSelector string nat
  | WarnNoResults
  | ControllerClose
  | LogControllerClosed

text \<open>A run: the events in program order, and \<open>Some e\<close> when exception \<open>e\<close> propagates.\<close>

type_synonym run = "event list \<times> exn option"

definition call :: "event \<Rightarrow> exn option \<Rightarrow> run" where
  "call ev res = ([ev], res)"

definition emit :: "event \<Rightarrow> run" where
  "emit ev = ([ev], None)"

text \<open>Sequential composition of two statements: the second runs only if the first returned.\<close>

definition seq :: "run \<Rightarrow> run \<Rightarrow> run" where
  "seq r1 r2 = (case snd r1 of
       Some e \<Rightarrow> (fst r1, Some e)
     | None \<Rightarrow> (fst r1 @ fst r2, snd r2))"

fun seq_all :: "run list \<Rightarrow> run" where
  "seq_all [] = ([], None)"
| "seq_all (r # rs) = seq r (seq_all rs)"

subsection \<open>Command line and environment\<close>

record args =
  query :: string
  iterations :: int
  proxy_list :: "string list"
  tor :: bool

text \<open>What the external world answers during one loop iteration.\<close>

record iter_env =
  signal_res :: "exn option"
  launch_res :: "exn + handle"
  new_context_res :: "exn + handle"
  new_page_res :: "exn option"
  goto_res :: "exn option"
  consent_res :: "exn + bool"
  consent_click_res :: "exn option"
  fill_res :: "exn option"
  press_res :: "exn option"
  wait_res :: "exn option"
  first_result_res :: "exn + bool"
  click_res :: "exn option"

record env =
  stem_installed :: bool
  tor_control_passwd :: "string option"
  from_port_res :: "exn option"
  authenticate_res :: "exn option"
  iters :: "nat \<Rightarrow> iter_env"

subsection \<open>new_browser\<close>

text \<open>\<open>{"server": proxy} if proxy else None\<close>: an absent or empty proxy gives no proxy.\<close>

definition launch_proxy :: "string option \<Rightarrow> string option" where
  "launch_proxy proxy = (case proxy of
       None \<Rightarrow> None
     | Some s \<Rightarrow> if s = [] then None else Some s)"

text \<open>
  The context manager: launch, new context, the body of the \<open>with\<close> statement
  at the \<open>yield\<close>, and the \<open>finally\<close> block, which runs whether the body returned or
  raised and lets the body's exception pass.
\<close>

definition new_browser :: "iter_env \<Rightarrow> string option \<Rightarrow> (handle \<Rightarrow> run) \<Rightarrow> run" where
  "new_browser ie proxy body = (case launch_res ie of
       Inl e \<Rightarrow> ([Launch (launch_proxy proxy) None], Some e)
     | Inr b \<Rightarrow> (case new_context_res ie of
         Inl e \<Rightarrow> ([Launch (launch_proxy proxy) (Some b), NewContext b None], Some e)
       | Inr c \<Rightarrow>
           ([Launch (launch_proxy proxy) (Some b), NewContext b (Some c)]
              @ fst (body c) @ [ContextClose c, BrowserClose b],
            snd (body c))))"

subsection \<open>run_search\<close>

definition google_url :: string where
  "google_url = ''https://www.google.com''"

definition reject_all_selector :: string where
  "reject_all_selector = ''button[aria-label='Reject all']''"

definition query_input_selector :: string where
  "query_input_selector = ''input[name='q']''"

definition result_selector :: string where
  "result_selector = ''h3''"

text \<open>The consent banner: a timeout inside the \<open>try\<close> is swallowed, anything else passes.\<close>

definition consent_block :: "iter_env \<Rightarrow> run" where
  "consent_block ie =
     (let r = (case consent_res ie of
                 Inl e \<Rightarrow> ([QuerySelector reject_all_selector], Some e)
               | Inr found \<Rightarrow>
                   if found
                   then seq (emit (QuerySelector reject_all_selector))
                            (call (Click reject_all_selector) (consent_click_res ie))
                   else emit (QuerySelector reject_all_selector))
      in case snd r of
           Some (PlaywrightTimeoutError m) \<Rightarrow> (fst r, None)
         | _ \<Rightarrow> r)"

text \<open>Lines 75 to 80: wait for a result heading, then click the first one or warn.\<close>

definition result_block :: "iter_env \<Rightarrow> run" where
  "result_block ie =
     seq (call (WaitForSelector result_selector 20000) (wait_res ie))
       (case first_result_res ie of
          Inl e \<Rightarrow> ([QuerySelector result_selector], Some e)
        | Inr found \<Rightarrow>
            if found
            then seq (emit (QuerySelector result_selector))
                     (call (Click result_selector) (click_res ie))
            else seq (emit (QuerySelector result_selector)) (emit WarnNoResults))"

definition run_search :: "iter_env \<Rightarrow> handle \<Rightarrow> string \<Rightarrow> run" where
  "run_search ie ctx q = seq_all
     [ call (NewPage ctx) (new_page_res ie),
       call (Goto google_url 45000) (goto_res ie),
       consent_block ie,
       call (Fill query_input_selector q) (fill_res ie),
       call (Press query_input_selector ''Enter'') (press_res ie),
       result_block ie,
       emit (Sleep 3) ]"

text \<open>Lines 57 to 72 of \<open>run_search\<close>: everything up to and including the submission.\<close>

definition submit_query :: "iter_env \<Rightarrow> handle \<Rightarrow> string \<Rightarrow> run" where
  "submit_query ie ctx q = seq_all
     [ call (NewPage ctx) (new_page_res ie),
       call (Goto google_url 45000) (goto_res ie),
       consent_block ie,
       call (Fill query_input_selector q) (fill_res ie),
       call (Press query_input_selector ''Enter'') (press_res ie) ]"

subsection \<open>main\<close>

definition tor_socks :: string where
  "tor_socks = ''socks5://127.0.0.1:9050''"

text \<open>
  Lines 131 to 135. \<open>[x] * n\<close> is empty for \<open>n \<le> 0\<close>; \<open>args.proxy_list or [None]\<close>
  is \<open>[None]\<close> for the empty list.
\<close>

definition build_proxies :: "args \<Rightarrow> string option list" where
  "build_proxies a =
     (if tor a then replicate (nat (iterations a)) (Some tor_socks)
      else if proxy_list a = [] then [None]
      else map Some (proxy_list a))"

text \<open>Line 140: \<open>proxies[i % len(proxies)]\<close>, which raises on an empty list.\<close>

definition select_proxy :: "string option list \<Rightarrow> nat \<Rightarrow> exn + string option" where
  "select_proxy proxies i =
     (if length proxies = 0 then Inl ZeroDivisionError
      else Inr (proxies ! (i mod length proxies)))"

text \<open>Lines 143 to 149: every \<open>Exception\<close> of the signal is caught and logged.\<close>

definition renew :: "iter_env \<Rightarrow> bool \<Rightarrow> run" where
  "renew ie controller =
     (if controller then
        (case signal_res ie of
           None \<Rightarrow> ([SignalNewnym, LogNewnymSent, Sleep 5], None)
         | Some e \<Rightarrow> ([SignalNewnym, LogNewnymFailed e], None))
      else ([], None))"

text \<open>Lines 152 to 156: only a playwright timeout is caught.\<close>

definition catch_timeout :: "run \<Rightarrow> run" where
  "catch_timeout r = (case snd r of
       Some (PlaywrightTimeoutError m) \<Rightarrow> (fst r @ [LogTimeout (PlaywrightTimeoutError m)], None)
     | _ \<Rightarrow> r)"

text \<open>An outcome that the clause \<open>except PlaywrightTimeoutError\<close> does not absorb.\<close>

fun uncaught :: "exn option \<Rightarrow> bool" where
  "uncaught None = False"
| "uncaught (Some (PlaywrightTimeoutError m)) = False"
| "uncaught (Some e) = True"

text \<open>The \<open>try\<close> statement of lines 152 to 156: one browser session and one search.\<close>

definition session :: "iter_env \<Rightarrow> string option \<Rightarrow> string \<Rightarrow> run" where
  "session ie proxy q = catch_timeout (new_browser ie proxy (\<lambda>ctx. run_search ie ctx q))"

definition iteration :: "env \<Rightarrow> args \<Rightarrow> string option list \<Rightarrow> bool \<Rightarrow> nat \<Rightarrow> run" where
  "iteration en a proxies controller i = (case select_proxy proxies i of
       Inl e \<Rightarrow> ([], Some e)
     | Inr proxy \<Rightarrow> seq_all
         [ renew (iters en i) controller,
           emit (LogIteration (int i + 1) (iterations a) proxy),
           session (iters en i) proxy (query a) ])"

text \<open>The \<open>for\<close> loop over \<open>range(args.iterations)\<close>; an exception leaves the loop.\<close>

fun loop :: "env \<Rightarrow> args \<Rightarrow> string option list \<Rightarrow> bool \<Rightarrow> nat list \<Rightarrow> run" where
  "loop en a proxies controller [] = ([], None)"
| "loop en a proxies controller (i # is) =
     seq (iteration en a proxies controller i) (loop en a proxies controller is)"

text \<open>\<open>range(n)\<close> is empty for \<open>n \<le> 0\<close>.\<close>

definition range_py :: "int \<Rightarrow> nat list" where
  "range_py n = [0 ..< nat n]"

text \<open>\<open>with sync_playwright() as p\<close>: the exit handler runs and the exception passes.\<close>

definition sync_playwright :: "run \<Rightarrow> run" where
  "sync_playwright body = (PlaywrightStart # fst body @ [PlaywrightStop], snd body)"

text \<open>
  Lines 112 to 128. The result is the events and either the exception raised or
  whether a controller is held. The first message has an en dash in the source,
  written here as a hyphen.
\<close>

definition open_controller :: "env \<Rightarrow> args \<Rightarrow> event list \<times> (exn + bool)" where
  "open_controller en a =
     (if tor a then
        if \<not> stem_installed en then
          ([], Inl (RuntimeError
             ''Missing 'stem' library - install with `pip install stem` or remove --tor''))
        else (case tor_control_passwd en of
            None \<Rightarrow> ([], Inl (RuntimeError ''Environment variable TOR_CONTROL_PASSWD is not set''))
          | Some pw \<Rightarrow>
              if pw = [] then
                ([], Inl (RuntimeError ''Environment variable TOR_CONTROL_PASSWD is not set''))
              else (case from_port_res en of
                  Some e \<Rightarrow> ([FromPort 9051], Inl (RuntimeError
                     (''Could not authenticate to Tor control port: '' @ str_exn e)))
                | None \<Rightarrow> (case authenticate_res en of
                      Some e \<Rightarrow> ([FromPort 9051, Authenticate pw], Inl (RuntimeError
                         (''Could not authenticate to Tor control port: '' @ str_exn e)))
                    | None \<Rightarrow> ([FromPort 9051, Authenticate pw, LogAuthenticated], Inr True))))
      else ([], Inr False))"

text \<open>Lines 159 to 161.\<close>

definition clean_up :: "bool \<Rightarrow> run" where
  "clean_up controller =
     (if controller then ([ControllerClose, LogControllerClosed], None) else ([], None))"

definition main :: "env \<Rightarrow> args \<Rightarrow> run" where
  "main en a = (case open_controller en a of
       (t0, Inl e) \<Rightarrow> (t0, Some e)
     | (t0, Inr controller) \<Rightarrow>
         seq (t0, None)
           (seq (sync_playwright
                   (loop en a (build_proxies a) controller (range_py (iterations a))))
                (clean_up controller)))"

text \<open>The interpreter exits with status 1 on an uncaught exception, with 0 otherwise.\<close>

definition exit_status :: "run \<Rightarrow> int" where
  "exit_status r = (case snd r of None \<Rightarrow> 0 | Some e \<Rightarrow> 1)"

text \<open>
  The run enters iteration \<open>k\<close> of the loop: the controller was opened where \<open>--tor\<close> asks
  for one, \<open>k\<close> is an index of \<open>range(args.iterations)\<close>, and no earlier iteration raised.
\<close>

definition enters :: "env \<Rightarrow> args \<Rightarrow> nat \<Rightarrow> bool" where
  "enters en a k =
     (\<not> isl (snd (open_controller en a)) \<and> k < nat (iterations a)
      \<and> list_all (\<lambda>j. snd (iteration en a (build_proxies a) (tor a) j) = None) [0 ..< k])"

subsection \<open>Classes of events\<close>

text \<open>The events that \<open>run_search\<close> can produce.\<close>

fun page_event :: "event \<Rightarrow> bool" where
  "page_event (NewPage c) = True"
| "page_event (Goto u t) = True"
| "page_event (QuerySelector s) = True"
| "page_event (Click s) = True"
| "page_event (Fill s q) = True"
| "page_event (Press s k) = True"
| "page_event (WaitForSelector s t) = True"
| "page_event WarnNoResults = True"
| "page_event (Sleep n) = (n = 3)"
| "page_event ev = False"

text \<open>Calls of \<open>chromium.launch\<close> and of \<open>context.new_page\<close>.\<close>

fun is_launch :: "event \<Rightarrow> bool" where
  "is_launch (Launch p h) = True"
| "is_launch ev = False"

fun is_new_page :: "event \<Rightarrow> bool" where
  "is_new_page (NewPage c) = True"
| "is_new_page ev = False"

subsection \<open>Live browser contexts\<close>

text \<open>
  The browser contexts that are live after an event: \<open>new_context\<close> that returned adds
  one, \<open>context.close\<close> removes it.
\<close>

fun step_live :: "event \<Rightarrow> handle list \<Rightarrow> handle list" where
  "step_live (NewContext b (Some c)) live = c # live"
| "step_live (ContextClose c) live = remove1 c live"
| "step_live ev live = live"

definition live_contexts :: "event list \<Rightarrow> handle list" where
  "live_contexts t = fold step_live t []"

text \<open>The largest number of contexts live at once while a trace runs from a given state.\<close>

fun peak :: "event list \<Rightarrow> handle list \<Rightarrow> nat" where
  "peak [] live = length live"
| "peak (ev # t) live = max (length live) (peak t (step_live ev live))"

definition balanced :: "event list \<Rightarrow> bool" where
  "balanced t = (peak t [] \<le> 1 \<and> fold step_live t [] = [])"

subsection \<open>Sample inputs\<close>

text \<open>An iteration in which every call succeeds, and an environment made of such iterations.\<close>

definition ok_iter :: iter_env where
  "ok_iter = \<lparr> signal_res = None, launch_res = Inr 1, new_context_res = Inr 2,
     new_page_res = None, goto_res = None, consent_res = Inr False, consent_click_res = None,
     fill_res = None, press_res = None, wait_res = None, first_result_res = Inr True,
     click_res = None \<rparr>"

definition ok_env :: env where
  "ok_env = \<lparr> stem_installed = True, tor_control_passwd = Some ''secret'',
     from_port_res = None, authenticate_res = None, iters = (\<lambda>i. ok_iter) \<rparr>"

definition args_ab :: args where
  "args_ab = \<lparr> query = ''test'', iterations = 5, proxy_list = [''A'', ''B''], tor = False \<rparr>"

definition env_timeout :: env where
  "env_timeout = ok_env \<lparr> iters := (\<lambda>i. if i = 0
      then ok_iter \<lparr> goto_res := Some (PlaywrightTimeoutError ''Timeout 45000ms exceeded'') \<rparr>
      else ok_iter) \<rparr>"

definition args_two :: args where
  "args_two = \<lparr> query = ''test'', iterations = 2, proxy_list = [], tor = False \<rparr>"

definition env_newnym_fails :: env where
  "env_newnym_fails = ok_env \<lparr> iters := (\<lambda>i.
      ok_iter \<lparr> signal_res := Some (OtherException ''control socket closed'') \<rparr>) \<rparr>"

definition args_tor :: args where
  "args_tor = \<lparr> query = ''test'', iterations = 2, proxy_list = [''X''], tor = True \<rparr>"

definition env_no_stem :: env where
  "env_no_stem = ok_env \<lparr> stem_installed := False \<rparr>"

definition env_no_passwd :: env where
  "env_no_passwd = ok_env \<lparr> tor_control_passwd := None \<rparr>"

definition env_conn_refused :: env where
  "env_conn_refused = ok_env \<lparr> from_port_res := Some (OtherException ''Connection refused'') \<rparr>"

definition env_bad_passwd :: env where
  "env_bad_passwd = ok_env \<lparr> authenticate_res := Some (OtherException ''Incorrect password'') \<rparr>"

definition env_nav_error :: env where
  "env_nav_error = ok_env \<lparr> iters := (\<lambda>i.
      ok_iter \<lparr> goto_res := Some (OtherException ''net::ERR_PROXY_CONNECTION_FAILED'') \<rparr>) \<rparr>"

definition args_tor_none :: args where
  "args_tor_none = \<lparr> query = ''test'', iterations = 0, proxy_list = [], tor = True \<rparr>"

definition args_negative :: args where
  "args_negative = \<lparr> query = ''test'', iterations = - 3, proxy_list = [''A''], tor = False \<rparr>"

definition iter_wait_timeout :: iter_env where
  "iter_wait_timeout = ok_iter \<lparr> wait_res := Some (PlaywrightTimeoutError ''Timeout 20000ms exceeded'') \<rparr>"

definition iter_no_heading :: iter_env where
  "iter_no_heading = ok_iter \<lparr> first_result_res := Inr False \<rparr>"

definition args_test :: args where
  "args_test = \<lparr> query = ''test'', iterations = 3, proxy_list = [], tor = False \<rparr>"

section \<open>Properties\<close>

subsection \<open>Sequencing\<close>

lemmas run_defs = main_def open_controller_def range_py_def iteration_def select_proxy_def
  build_proxies_def renew_def emit_def call_def seq_def session_def catch_timeout_def
  new_browser_def
  run_search_def consent_block_def result_block_def sync_playwright_def clean_up_def
  launch_proxy_def

lemma seq_None [simp]: "seq (t, None) r = (t @ fst r, snd r)"
  by (simp add: seq_def)

lemma seq_Some [simp]: "seq (t, Some e) r = (t, Some e)"
  by (simp add: seq_def)

lemma set_fst_seq: "set (fst (seq r1 r2)) \<subseteq> set (fst r1) \<union> set (fst r2)"
  by (cases "snd r1") (auto simp: seq_def)

lemma snd_seq_None: "snd (seq r1 r2) = None \<longleftrightarrow> snd r1 = None \<and> snd r2 = None"
  by (cases "snd r1") (auto simp: seq_def)

lemma set_fst_seq_all: "ev \<in> set (fst (seq_all rs)) \<Longrightarrow> \<exists>r \<in> set rs. ev \<in> set (fst r)"
proof (induction rs)
  case Nil
  then show ?case by simp
next
  case (Cons r rs)
  from Cons.prems have "ev \<in> set (fst r) \<or> ev \<in> set (fst (seq_all rs))"
    using set_fst_seq [of r "seq_all rs"] by auto
  with Cons.IH show ?case by auto
qed

subsection \<open>Which events each part of the script can produce\<close>

lemma fst_swallow_timeout:
  "fst (case snd r of Some (PlaywrightTimeoutError m) \<Rightarrow> (fst r, None) | _ \<Rightarrow> r) = fst r"
  by (simp split: option.splits exn.splits)

lemma consent_block_events: "ev \<in> set (fst (consent_block ie)) \<Longrightarrow> page_event ev"
  unfolding consent_block_def Let_def fst_swallow_timeout
  by (cases "consent_res ie") (auto simp: call_def emit_def split: if_splits)

lemma result_block_events: "ev \<in> set (fst (result_block ie)) \<Longrightarrow> page_event ev"
  unfolding result_block_def
  by (drule set_mp [OF set_fst_seq], cases "first_result_res ie")
     (auto simp: call_def emit_def split: if_splits)

lemma run_search_events: "ev \<in> set (fst (run_search ie c q)) \<Longrightarrow> page_event ev"
  unfolding run_search_def
  by (drule set_fst_seq_all)
     (auto simp: call_def emit_def dest: consent_block_events result_block_events)

lemma set_fst_catch_timeout:
  "ev \<in> set (fst (catch_timeout r)) \<Longrightarrow> ev \<in> set (fst r) \<or> (\<exists>e. ev = LogTimeout e)"
  by (cases "snd r") (auto simp: catch_timeout_def split: exn.splits)

lemma set_fst_new_browser:
  "ev \<in> set (fst (new_browser ie proxy body)) \<Longrightarrow>
     (\<exists>c. ev \<in> set (fst (body c))) \<or> (\<exists>h. ev = Launch (launch_proxy proxy) h)
     \<or> (\<exists>b h. ev = NewContext b h) \<or> (\<exists>c. ev = ContextClose c) \<or> (\<exists>b. ev = BrowserClose b)"
  by (cases "launch_res ie"; cases "new_context_res ie") (auto simp: new_browser_def)

text \<open>The events of the session of one iteration: the \<open>try\<close> statement of lines 152 to 156.\<close>

lemma session_events:
  assumes "ev \<in> set (fst (session ie proxy q))"
  shows "page_event ev \<or> (\<exists>h. ev = Launch (launch_proxy proxy) h)
     \<or> (\<exists>b h. ev = NewContext b h) \<or> (\<exists>c. ev = ContextClose c) \<or> (\<exists>b. ev = BrowserClose b)
     \<or> (\<exists>e. ev = LogTimeout e)"
proof -
  from assms
  have "ev \<in> set (fst (new_browser ie proxy (\<lambda>ctx. run_search ie ctx q))) \<or> (\<exists>e. ev = LogTimeout e)"
    unfolding session_def by (rule set_fst_catch_timeout)
  then show ?thesis
    by (auto dest!: set_fst_new_browser dest: run_search_events)
qed

lemma renew_events:
  "ev \<in> set (fst (renew ie ctl)) \<Longrightarrow>
     ctl \<and> (ev = SignalNewnym \<or> ev = LogNewnymSent \<or> ev = Sleep 5 \<or> (\<exists>e. ev = LogNewnymFailed e))"
  by (cases "signal_res ie") (auto simp: renew_def split: if_splits)

text \<open>The events of one iteration, with the proxy that line 140 selected.\<close>

lemma iteration_events:
  assumes "ev \<in> set (fst (iteration en a proxies ctl j))"
  shows "\<exists>proxy. select_proxy proxies j = Inr proxy \<and>
     (ev \<in> set (fst (renew (iters en j) ctl))
      \<or> ev = LogIteration (int j + 1) (iterations a) proxy
      \<or> ev \<in> set (fst (session (iters en j) proxy (query a))))"
proof (cases "select_proxy proxies j")
  case (Inl e)
  with assms show ?thesis by (simp add: iteration_def)
next
  case (Inr proxy)
  with assms have "\<exists>r \<in> set [renew (iters en j) ctl,
        emit (LogIteration (int j + 1) (iterations a) proxy),
        session (iters en j) proxy (query a)].
      ev \<in> set (fst r)"
    by (intro set_fst_seq_all) (simp add: iteration_def)
  then show ?thesis
    using Inr by (auto simp: emit_def)
qed

lemma loop_events:
  "ev \<in> set (fst (loop en a proxies ctl js)) \<Longrightarrow>
     \<exists>j \<in> set js. ev \<in> set (fst (iteration en a proxies ctl j))"
proof (induction js)
  case Nil
  then show ?case by simp
next
  case (Cons j js)
  from Cons.prems
  have "ev \<in> set (fst (iteration en a proxies ctl j))
      \<or> ev \<in> set (fst (loop en a proxies ctl js))"
    using set_fst_seq [of "iteration en a proxies ctl j" "loop en a proxies ctl js"] by auto
  with Cons.IH show ?case by auto
qed

text \<open>The two ways through \<open>main\<close>: the controller cannot be opened, or the loop runs.\<close>

lemma main_cases:
  obtains (abort) t0 e where "open_controller en a = (t0, Inl e)" "main en a = (t0, Some e)"
  | (run) t0 ctl where "open_controller en a = (t0, Inr ctl)"
      "main en a = (t0 @ fst (seq (sync_playwright
                   (loop en a (build_proxies a) ctl (range_py (iterations a)))) (clean_up ctl)),
         snd (seq (sync_playwright
                   (loop en a (build_proxies a) ctl (range_py (iterations a)))) (clean_up ctl)))"
proof (cases "open_controller en a")
  case (Pair t0 r0)
  then show ?thesis
    by (cases r0) (auto simp: main_def intro: abort run)
qed

lemma open_controller_events:
  "ev \<in> set (fst (open_controller en a)) \<Longrightarrow>
     tor a \<and> (ev = FromPort 9051 \<or> (\<exists>pw. ev = Authenticate pw) \<or> ev = LogAuthenticated)"
  by (auto simp: open_controller_def split: option.splits if_splits)

lemma main_events:
  assumes "ev \<in> set (fst (main en a))"
  shows "ev \<in> set (fst (open_controller en a))
     \<or> ev \<in> {PlaywrightStart, PlaywrightStop, ControllerClose, LogControllerClosed}
     \<or> (\<exists>j < nat (iterations a). \<exists>ctl.
           ev \<in> set (fst (iteration en a (build_proxies a) ctl j)))"
proof (cases en a rule: main_cases)
  case (abort t0 e)
  with assms show ?thesis by simp
next
  case (run t0 ctl)
  let ?l = "loop en a (build_proxies a) ctl (range_py (iterations a))"
  from assms run
  have "ev \<in> set t0 \<or> ev \<in> set (fst (seq (sync_playwright ?l) (clean_up ctl)))"
    by auto
  then have "ev \<in> set t0 \<or> ev \<in> set (fst (sync_playwright ?l)) \<or> ev \<in> set (fst (clean_up ctl))"
    using set_fst_seq by blast
  then have "ev \<in> set t0 \<or> ev \<in> {PlaywrightStart, PlaywrightStop, ControllerClose, LogControllerClosed}
     \<or> ev \<in> set (fst ?l)"
    by (auto simp: sync_playwright_def clean_up_def split: if_splits)
  then show ?thesis
    using run(1) by (auto simp: range_py_def dest!: loop_events)
qed

text \<open>Every iteration header in a run shows an index of the loop and the proxy selected for it.\<close>

lemma main_iteration_event:
  assumes "ev \<in> set (fst (main en a))"
    and "\<not> page_event ev"
    and "ev = LogIteration x n p \<or> ev = Launch p h"
  shows "\<exists>j < nat (iterations a). \<exists>proxy. select_proxy (build_proxies a) j = Inr proxy \<and>
     (ev = LogIteration (int j + 1) (iterations a) proxy \<or> (\<exists>h'. ev = Launch (launch_proxy proxy) h'))"
proof -
  from main_events [OF assms(1)] assms(3)
  obtain j ctl where j: "j < nat (iterations a)"
    and ev: "ev \<in> set (fst (iteration en a (build_proxies a) ctl j))"
    by (auto dest: open_controller_events)
  from iteration_events [OF ev]
  obtain proxy where sel: "select_proxy (build_proxies a) j = Inr proxy"
    and alt: "ev \<in> set (fst (renew (iters en j) ctl))
      \<or> ev = LogIteration (int j + 1) (iterations a) proxy
      \<or> ev \<in> set (fst (session (iters en j) proxy (query a)))"
    by blast
  have "ev \<notin> set (fst (renew (iters en j) ctl))"
    using assms(3) by (auto dest: renew_events)
  moreover have "\<exists>h'. ev = Launch (launch_proxy proxy) h'"
    if "ev \<in> set (fst (session (iters en j) proxy (query a)))"
    using session_events [OF that] assms(2,3) by auto
  ultimately show ?thesis
    using alt sel j by blast
qed

text \<open>Every iteration header in a run shows an index of the loop and the proxy selected for it.\<close>

lemma main_log:
  assumes "LogIteration x n p \<in> set (fst (main en a))"
  shows "\<exists>j < nat (iterations a). x = int j + 1 \<and> n = iterations a
           \<and> select_proxy (build_proxies a) j = Inr p"
  using main_iteration_event [OF assms, of x n p] by auto

text \<open>Every launch in a run receives the proxy selected for an index of the loop.\<close>

lemma main_launch:
  assumes "Launch p h \<in> set (fst (main en a))"
  shows "\<exists>j < nat (iterations a). \<exists>proxy. select_proxy (build_proxies a) j = Inr proxy
           \<and> p = launch_proxy proxy"
  using main_iteration_event [OF assms, of _ _ p h] by auto

subsection \<open>The proxy of each iteration\<close>

text \<open>
  Claim C2. Without \<open>--tor\<close> and with a non-empty proxy list, iteration \<open>i\<close> of
  \<open>0 .. iterations - 1\<close> selects \<open>proxy_list[i mod len(proxy_list)]\<close>, cycling through the
  list; every iteration header that a run prints shows that proxy.
\<close>

theorem proxy_list_cyclic:
  assumes "\<not> tor a" and "proxy_list a \<noteq> []" and "1 \<le> iterations a"
  shows "map (select_proxy (build_proxies a)) (range_py (iterations a))
           = map (\<lambda>i. Inr (Some (proxy_list a ! (i mod length (proxy_list a)))))
               (range_py (iterations a))
       \<and> (\<forall>i p. LogIteration (int i + 1) (iterations a) p \<in> set (fst (main en a))
             \<longrightarrow> p = Some (proxy_list a ! (i mod length (proxy_list a))))"
proof -
  have sel: "select_proxy (build_proxies a) i
               = Inr (Some (proxy_list a ! (i mod length (proxy_list a))))" for i
    using assms by (simp add: select_proxy_def build_proxies_def)
  have "p = Some (proxy_list a ! (i mod length (proxy_list a)))"
    if "LogIteration (int i + 1) (iterations a) p \<in> set (fst (main en a))" for i p
    using main_log [OF that] sel by auto
  with sel show ?thesis by simp
qed

text \<open>The example of the specification: \<open>[A, B]\<close> and five iterations give \<open>A, B, A, B, A\<close>.\<close>

theorem proxy_list_cyclic_witness:
  "\<not> tor args_ab \<and> proxy_list args_ab \<noteq> [] \<and> 1 \<le> iterations args_ab
   \<and> map (select_proxy (build_proxies args_ab)) (range_py (iterations args_ab))
       = [Inr (Some ''A''), Inr (Some ''B''), Inr (Some ''A''), Inr (Some ''B''), Inr (Some ''A'')]
   \<and> LogIteration 5 5 (Some ''A'') \<in> set (fst (main ok_env args_ab))
   \<and> Some ''A'' = Some (proxy_list args_ab ! (4 mod length (proxy_list args_ab)))"
proof -
  have h: "\<not> tor args_ab" "proxy_list args_ab \<noteq> []" "1 \<le> iterations args_ab"
    by (simp_all add: args_ab_def)
  have r: "range_py (iterations args_ab) = [0, 1, 2, 3, 4]"
    by (simp add: args_ab_def range_py_def upt_rec)
  have l: "LogIteration (int 4 + 1) (iterations args_ab) (Some ''A'') \<in> set (fst (main ok_env args_ab))"
    by (simp add: run_defs args_ab_def ok_env_def ok_iter_def upt_rec mod_Suc)
  from proxy_list_cyclic [OF h, of ok_env] have
    sel: "map (select_proxy (build_proxies args_ab)) (range_py (iterations args_ab))
           = map (\<lambda>i. Inr (Some (proxy_list args_ab ! (i mod length (proxy_list args_ab)))))
               (range_py (iterations args_ab))"
    and log: "\<And>i p. LogIteration (int i + 1) (iterations args_ab) p \<in> set (fst (main ok_env args_ab))
             \<Longrightarrow> p = Some (proxy_list args_ab ! (i mod length (proxy_list args_ab)))"
    by blast+
  have "map (select_proxy (build_proxies args_ab)) (range_py (iterations args_ab))
       = [Inr (Some ''A''), Inr (Some ''B''), Inr (Some ''A''), Inr (Some ''B''), Inr (Some ''A'')]"
    using sel unfolding r by (simp add: args_ab_def eval_nat_numeral mod_Suc)
  moreover have "LogIteration 5 5 (Some ''A'') \<in> set (fst (main ok_env args_ab))"
    using l by (simp add: args_ab_def)
  ultimately show ?thesis
    using h log [OF l] by simp
qed

subsection \<open>The shape of a run\<close>

lemma renew_returns [simp]: "snd (renew ie ctl) = None"
  by (cases "signal_res ie") (simp_all add: renew_def)

lemma iteration_eq:
  assumes "select_proxy proxies j = Inr proxy"
  shows "iteration en a proxies ctl j =
     (fst (renew (iters en j) ctl) @ LogIteration (int j + 1) (iterations a) proxy
        # fst (session (iters en j) proxy (query a)),
      snd (session (iters en j) proxy (query a)))"
proof -
  have "seq (renew (iters en j) ctl) r = (fst (renew (iters en j) ctl) @ fst r, snd r)" for r
    by (simp add: seq_def)
  moreover have "seq (session (iters en j) proxy (query a)) ([], None)
      = session (iters en j) proxy (query a)"
    by (cases "session (iters en j) proxy (query a)"; cases "snd (session (iters en j) proxy (query a))")
       (simp_all add: seq_def)
  ultimately show ?thesis
    using assms by (simp add: iteration_def emit_def)
qed

lemma select_ok:
  assumes "j < nat (iterations a)"
  shows "\<exists>proxy. select_proxy (build_proxies a) j = Inr proxy"
  using assms by (auto simp: select_proxy_def build_proxies_def)

lemma open_controller_flag: "open_controller en a = (t0, Inr ctl) \<Longrightarrow> ctl = tor a"
  by (auto simp: open_controller_def split: if_splits option.splits)

lemma loop_append:
  "loop en a proxies ctl (xs @ ys) = seq (loop en a proxies ctl xs) (loop en a proxies ctl ys)"
proof (induction xs)
  case Nil
  then show ?case by simp
next
  case (Cons x xs)
  then show ?case
    by (cases "snd (iteration en a proxies ctl x)"; cases "snd (loop en a proxies ctl xs)")
       (simp_all add: seq_def)
qed

lemma loop_all_return:
  "list_all (\<lambda>j. snd (iteration en a proxies ctl j) = None) js \<Longrightarrow>
     loop en a proxies ctl js = (concat (map (\<lambda>j. fst (iteration en a proxies ctl j)) js), None)"
  by (induction js) (simp_all add: seq_def)

text \<open>The run as a function of the loop.\<close>

lemma main_run_eq:
  assumes "open_controller en a = (t0, Inr ctl)"
  shows "main en a =
     (t0 @ PlaywrightStart # fst (loop en a (build_proxies a) (tor a) (range_py (iterations a)))
        @ PlaywrightStop #
        (if snd (loop en a (build_proxies a) (tor a) (range_py (iterations a))) = None
         then fst (clean_up (tor a)) else []),
      snd (loop en a (build_proxies a) (tor a) (range_py (iterations a))))"
proof -
  have ctl: "ctl = tor a"
    using assms by (rule open_controller_flag)
  show ?thesis
    using assms unfolding ctl
    by (cases "snd (loop en a (build_proxies a) (tor a) (range_py (iterations a)))")
       (simp_all add: main_def seq_def sync_playwright_def clean_up_def)
qed

lemma catch_timeout_simps [simp]:
  "catch_timeout (t, None) = (t, None)"
  "catch_timeout (t, Some (PlaywrightTimeoutError m))
     = (t @ [LogTimeout (PlaywrightTimeoutError m)], None)"
  "catch_timeout (t, Some (RuntimeError m)) = (t, Some (RuntimeError m))"
  "catch_timeout (t, Some ZeroDivisionError) = (t, Some ZeroDivisionError)"
  "catch_timeout (t, Some (OtherException m)) = (t, Some (OtherException m))"
  by (simp_all add: catch_timeout_def)

lemma session_yields:
  assumes "launch_res ie = Inr b" and "new_context_res ie = Inr c"
  shows "session ie proxy q = catch_timeout
     ([Launch (launch_proxy proxy) (Some b), NewContext b (Some c)]
        @ fst (run_search ie c q) @ [ContextClose c, BrowserClose b],
      snd (run_search ie c q))"
  using assms by (simp add: session_def new_browser_def)

lemma fst_catch_timeout_head: "fst r = x # t \<Longrightarrow> \<exists>t'. fst (catch_timeout r) = x # t'"
  by (cases r; cases "snd r") (auto simp: catch_timeout_def split: exn.splits)

lemma session_head: "\<exists>h rest. fst (session ie proxy q) = Launch (launch_proxy proxy) h # rest"
proof -
  have "\<exists>h rest. fst (new_browser ie proxy (\<lambda>ctx. run_search ie ctx q))
          = Launch (launch_proxy proxy) h # rest"
    by (cases "launch_res ie"; cases "new_context_res ie") (simp_all add: new_browser_def)
  then show ?thesis
    unfolding session_def using fst_catch_timeout_head by blast
qed

lemma range_split:
  assumes "k < nat n"
  shows "range_py n = [0 ..< k] @ k # [Suc k ..< nat n]"
proof -
  have "[0 ..< nat n] = [0 ..< k] @ [k ..< nat n]"
    using assms upt_add_eq_append [of 0 k "nat n - k"] by simp
  then show ?thesis
    using assms by (simp add: range_py_def upt_conv_Cons)
qed

text \<open>A run that enters iteration \<open>k\<close>: the trace up to and after that iteration.\<close>

lemma enters_main:
  assumes "enters en a k"
  shows "\<exists>pre. main en a =
     (pre @ fst (seq (iteration en a (build_proxies a) (tor a) k)
                    (loop en a (build_proxies a) (tor a) [Suc k ..< nat (iterations a)]))
        @ PlaywrightStop #
          (if snd (main en a) = None then fst (clean_up (tor a)) else []),
      snd (seq (iteration en a (build_proxies a) (tor a) k)
                    (loop en a (build_proxies a) (tor a) [Suc k ..< nat (iterations a)])))"
proof -
  let ?P = "build_proxies a"
  from assms obtain t0 ctl where oc: "open_controller en a = (t0, Inr ctl)"
    by (cases "open_controller en a"; cases "snd (open_controller en a)") (auto simp: enters_def)
  from assms have k: "k < nat (iterations a)"
    and ret: "list_all (\<lambda>j. snd (iteration en a ?P (tor a) j) = None) [0 ..< k]"
    by (simp_all add: enters_def)
  let ?rest = "seq (iteration en a ?P (tor a) k) (loop en a ?P (tor a) [Suc k ..< nat (iterations a)])"
  have "loop en a ?P (tor a) (range_py (iterations a))
          = seq (loop en a ?P (tor a) [0 ..< k]) (loop en a ?P (tor a) (k # [Suc k ..< nat (iterations a)]))"
    unfolding range_split [OF k] by (rule loop_append)
  also have "\<dots> = (concat (map (\<lambda>j. fst (iteration en a ?P (tor a) j)) [0 ..< k]) @ fst ?rest, snd ?rest)"
    unfolding loop_all_return [OF ret] by simp
  finally have l: "loop en a ?P (tor a) (range_py (iterations a))
          = (concat (map (\<lambda>j. fst (iteration en a ?P (tor a) j)) [0 ..< k]) @ fst ?rest, snd ?rest)" .
  show ?thesis
    unfolding main_run_eq [OF oc] l by simp
qed

lemma enters_Suc:
  assumes "enters en a k" and "snd (iteration en a (build_proxies a) (tor a) k) = None"
    and "Suc k < nat (iterations a)"
  shows "enters en a (Suc k)"
  using assms by (simp add: enters_def)

lemma enters_header:
  assumes "enters en a k"
  shows "\<exists>p. LogIteration (int k + 1) (iterations a) p \<in> set (fst (main en a))"
proof -
  from assms have "k < nat (iterations a)"
    by (simp add: enters_def)
  then obtain proxy where sel: "select_proxy (build_proxies a) k = Inr proxy"
    using select_ok by blast
  have "LogIteration (int k + 1) (iterations a) proxy
      \<in> set (fst (seq (iteration en a (build_proxies a) (tor a) k)
                    (loop en a (build_proxies a) (tor a) [Suc k ..< nat (iterations a)])))"
    by (cases "snd (session (iters en k) proxy (query a))")
       (simp_all add: iteration_eq [OF sel] seq_def)
  with enters_main [OF assms] show ?thesis
    by (metis Un_iff fst_conv set_append)
qed

lemma iteration_header:
  assumes "LogIteration x n p \<in> set (fst (iteration en a proxies ctl j))"
  shows "x = int j + 1"
  using iteration_events [OF assms] by (auto dest: renew_events session_events)

lemma loop_header_split:
  assumes "LogIteration (int k + 1) n p \<in> set (fst (loop en a proxies ctl js))"
  shows "\<exists>js1 js2. js = js1 @ k # js2
           \<and> list_all (\<lambda>j. snd (iteration en a proxies ctl j) = None) js1"
  using assms
proof (induction js)
  case Nil
  then show ?case by simp
next
  case (Cons j js)
  show ?case
  proof (cases "LogIteration (int k + 1) n p \<in> set (fst (iteration en a proxies ctl j))")
    case True
    from iteration_header [OF this] have "j = k"
      by simp
    then have "j # js = [] @ k # js \<and> list_all (\<lambda>j. snd (iteration en a proxies ctl j) = None) []"
      by simp
    then show ?thesis
      by blast
  next
    case False
    with Cons.prems have ret: "snd (iteration en a proxies ctl j) = None"
      and "LogIteration (int k + 1) n p \<in> set (fst (loop en a proxies ctl js))"
      by (cases "snd (iteration en a proxies ctl j)"; simp add: seq_def)+
    from Cons.IH [OF this(2)] obtain js1 js2 where "js = js1 @ k # js2"
      and "list_all (\<lambda>j. snd (iteration en a proxies ctl j) = None) js1"
      by blast
    with ret have "j # js = (j # js1) @ k # js2
        \<and> list_all (\<lambda>j. snd (iteration en a proxies ctl j) = None) (j # js1)"
      by simp
    then show ?thesis
      by blast
  qed
qed

lemma upt_split_at:
  assumes "[0 ..< N] = js1 @ k # js2"
  shows "js1 = [0 ..< k] \<and> k < N"
proof -
  have len: "length js1 < N"
    using arg_cong [OF assms, of length] by simp
  have "[0 ..< N] ! length js1 = k"
    unfolding assms by simp
  then have k: "length js1 = k"
    using len by simp
  have "js1 = take k [0 ..< N]"
    unfolding assms using k by simp
  then show ?thesis
    using len k by (simp add: take_upt)
qed

text \<open>A header in the trace of a run tells that the run entered that iteration.\<close>

lemma header_enters:
  assumes "LogIteration (int k + 1) n p \<in> set (fst (main en a))"
  shows "enters en a k"
proof (cases en a rule: main_cases)
  case (abort t0 e)
  with assms open_controller_events [of "LogIteration (int k + 1) n p" en a] show ?thesis
    by auto
next
  case (run t0 ctl)
  have ctl: "ctl = tor a"
    using run(1) by (rule open_controller_flag)
  let ?l = "loop en a (build_proxies a) (tor a) (range_py (iterations a))"
  have "LogIteration (int k + 1) n p \<notin> set t0"
    using open_controller_events [of "LogIteration (int k + 1) n p" en a] run(1) by auto
  with assms have "LogIteration (int k + 1) n p \<in> set (fst ?l)"
    unfolding main_run_eq [OF run(1)] by (auto simp: clean_up_def split: if_splits)
  from loop_header_split [OF this] obtain js1 js2
    where s: "range_py (iterations a) = js1 @ k # js2"
      and r: "list_all (\<lambda>j. snd (iteration en a (build_proxies a) (tor a) j) = None) js1"
    by blast
  from upt_split_at [OF s [unfolded range_py_def]] r show ?thesis
    by (simp add: enters_def run(1))
qed

text \<open>Entering an iteration and printing its header are the same.\<close>

lemma enters_iff_header:
  "enters en a k \<longleftrightarrow> (\<exists>p. LogIteration (int k + 1) (iterations a) p \<in> set (fst (main en a)))"
  using enters_header header_enters by blast

lemma launch_proxy_tor: "launch_proxy (Some tor_socks) = Some tor_socks"
  by (simp add: launch_proxy_def tor_socks_def)

lemma select_tor:
  "tor a \<Longrightarrow> i < nat (iterations a) \<Longrightarrow> select_proxy (build_proxies a) i = Inr (Some tor_socks)"
  by (simp add: select_proxy_def build_proxies_def)

text \<open>
  Claim C3. With \<open>--tor\<close>, every index of the loop selects the fixed local SOCKS address
  \<open>socks5://127.0.0.1:9050\<close>, whatever the proxy list holds; every iteration header and every
  browser launch of a run carries it.
\<close>

theorem tor_fixed_socks:
  assumes "tor a"
  shows "(\<forall>i < nat (iterations a). select_proxy (build_proxies a) i = Inr (Some tor_socks))
       \<and> (\<forall>x n p. LogIteration x n p \<in> set (fst (main en a)) \<longrightarrow> p = Some tor_socks)
       \<and> (\<forall>p h. Launch p h \<in> set (fst (main en a)) \<longrightarrow> p = Some tor_socks)
       \<and> tor_socks = ''socks5://127.0.0.1:9050''"
proof -
  have sel: "select_proxy (build_proxies a) i = Inr (Some tor_socks)"
    if "i < nat (iterations a)" for i
    using assms that by (rule select_tor)
  have "p = Some tor_socks" if "LogIteration x n p \<in> set (fst (main en a))" for x n p
    using main_log [OF that] sel by auto
  moreover have "p = Some tor_socks" if "Launch p h \<in> set (fst (main en a))" for p h
    using main_launch [OF that] sel launch_proxy_tor by auto
  ultimately show ?thesis
    using sel by (simp add: tor_socks_def)
qed

lemma ok_search_returns: "snd (run_search ok_iter c q) = None"
  by (simp add: run_search_def consent_block_def result_block_def call_def emit_def ok_iter_def)

lemma ok_tor_iteration:
  assumes "j < 2"
  shows "iteration ok_env args_tor (build_proxies args_tor) True j =
     ([SignalNewnym, LogNewnymSent, Sleep 5, LogIteration (int j + 1) 2 (Some tor_socks),
       Launch (Some tor_socks) (Some 1), NewContext 1 (Some 2)]
      @ fst (run_search ok_iter 2 ''test'') @ [ContextClose 2, BrowserClose 1], None)"
proof -
  have sel: "select_proxy (build_proxies args_tor) j = Inr (Some tor_socks)"
    using assms by (simp add: select_tor args_tor_def)
  have i: "iters ok_env j = ok_iter"
    by (simp add: ok_env_def)
  have l: "launch_res ok_iter = Inr 1" "new_context_res ok_iter = Inr 2" "signal_res ok_iter = None"
    by (simp_all add: ok_iter_def)
  show ?thesis
    unfolding iteration_eq [OF sel] i session_yields [OF l(1,2)] ok_search_returns
    by (simp add: renew_def l(3) launch_proxy_tor args_tor_def)
qed

lemma ok_tor_run:
  "main ok_env args_tor =
     ([FromPort 9051, Authenticate ''secret'', LogAuthenticated, PlaywrightStart,
       SignalNewnym, LogNewnymSent, Sleep 5, LogIteration 1 2 (Some tor_socks),
       Launch (Some tor_socks) (Some 1), NewContext 1 (Some 2)]
      @ fst (run_search ok_iter 2 ''test'') @
      [ContextClose 2, BrowserClose 1,
       SignalNewnym, LogNewnymSent, Sleep 5, LogIteration 2 2 (Some tor_socks),
       Launch (Some tor_socks) (Some 1), NewContext 1 (Some 2)]
      @ fst (run_search ok_iter 2 ''test'') @
      [ContextClose 2, BrowserClose 1, PlaywrightStop, ControllerClose, LogControllerClosed],
      None)"
proof -
  have r: "range_py (iterations args_tor) = [0, 1]"
    by (simp add: range_py_def args_tor_def upt_rec)
  have o: "open_controller ok_env args_tor
      = ([FromPort 9051, Authenticate ''secret'', LogAuthenticated], Inr True)"
    by (simp add: open_controller_def ok_env_def args_tor_def)
  have t: "tor args_tor"
    by (simp add: args_tor_def)
  show ?thesis
    unfolding main_run_eq [OF o] r
    by (simp add: t ok_tor_iteration clean_up_def)
qed

theorem tor_fixed_socks_witness:
  "tor args_tor
   \<and> select_proxy (build_proxies args_tor) 0 = Inr (Some ''socks5://127.0.0.1:9050'')
   \<and> select_proxy (build_proxies args_tor) 1 = Inr (Some ''socks5://127.0.0.1:9050'')
   \<and> LogIteration 2 2 (Some ''socks5://127.0.0.1:9050'') \<in> set (fst (main ok_env args_tor))
   \<and> Launch (Some ''socks5://127.0.0.1:9050'') (Some 1) \<in> set (fst (main ok_env args_tor))"
proof -
  have h: "tor args_tor"
    by (simp add: args_tor_def)
  have n: "(0::nat) < nat (iterations args_tor)" "(1::nat) < nat (iterations args_tor)"
    by (simp_all add: args_tor_def)
  have ev: "LogIteration 2 2 (Some tor_socks) \<in> set (fst (main ok_env args_tor))"
    "Launch (Some tor_socks) (Some 1) \<in> set (fst (main ok_env args_tor))"
    by (simp_all add: ok_tor_run)
  note t = tor_fixed_socks [OF h, of ok_env]
  note sel = t [THEN conjunct1, rule_format]
  note addr = t [THEN conjunct2, THEN conjunct2, THEN conjunct2]
  have "select_proxy (build_proxies args_tor) 0 = Inr (Some ''socks5://127.0.0.1:9050'')"
    using sel [OF n(1)] addr by simp
  moreover have "select_proxy (build_proxies args_tor) 1 = Inr (Some ''socks5://127.0.0.1:9050'')"
    using sel [OF n(2)] addr by simp
  moreover have "LogIteration 2 2 (Some ''socks5://127.0.0.1:9050'') \<in> set (fst (main ok_env args_tor))"
    using ev(1) addr by simp
  moreover have "Launch (Some ''socks5://127.0.0.1:9050'') (Some 1) \<in> set (fst (main ok_env args_tor))"
    using ev(2) addr by simp
  ultimately show ?thesis
    using h by blast
qed

subsection \<open>Failures that do not end the run\<close>

text \<open>
  Claim C5. If the run enters iteration \<open>k\<close> with \<open>k < iterations - 1\<close> and the search task
  of that iteration propagates a playwright timeout, the session is released, the timeout is
  logged, and the run enters iteration \<open>k + 1\<close>: its renewal and its header follow in the trace.
  A run enters an iteration exactly when the header of that iteration is in its trace
  (lemma \<open>enters_iff_header\<close>).
\<close>

theorem timeout_continues:
  assumes "enters en a k" and "int k < iterations a - 1"
    and "launch_res (iters en k) = Inr b" and "new_context_res (iters en k) = Inr c"
    and "snd (run_search (iters en k) c (query a)) = Some (PlaywrightTimeoutError m)"
  shows "enters en a (Suc k)
     \<and> (\<exists>pre post p. fst (main en a) =
           pre @ [ContextClose c, BrowserClose b, LogTimeout (PlaywrightTimeoutError m)]
             @ fst (renew (iters en (Suc k)) (tor a))
             @ LogIteration (int (Suc k) + 1) (iterations a) p # post)"
proof -
  let ?P = "build_proxies a"
  let ?N = "nat (iterations a)"
  from assms(1) have k: "k < ?N"
    by (simp add: enters_def)
  from assms(2) have k1: "Suc k < ?N"
    by simp
  obtain proxy where sel: "select_proxy ?P k = Inr proxy"
    using select_ok [OF k] by blast
  obtain proxy' where sel': "select_proxy ?P (Suc k) = Inr proxy'"
    using select_ok [OF k1] by blast
  have ses: "session (iters en k) proxy (query a) =
     ([Launch (launch_proxy proxy) (Some b), NewContext b (Some c)]
        @ fst (run_search (iters en k) c (query a))
        @ [ContextClose c, BrowserClose b, LogTimeout (PlaywrightTimeoutError m)], None)"
    unfolding session_yields [OF assms(3,4)] assms(5) by simp
  have it: "iteration en a ?P (tor a) k =
     ((fst (renew (iters en k) (tor a)) @ LogIteration (int k + 1) (iterations a) proxy
        # [Launch (launch_proxy proxy) (Some b), NewContext b (Some c)]
        @ fst (run_search (iters en k) c (query a)))
        @ [ContextClose c, BrowserClose b, LogTimeout (PlaywrightTimeoutError m)], None)"
    unfolding iteration_eq [OF sel] ses by simp
  have ret: "snd (iteration en a ?P (tor a) k) = None"
    by (simp add: it)
  have up: "[Suc k ..< ?N] = Suc k # [Suc (Suc k) ..< ?N]"
    using k1 by (simp add: upt_conv_Cons)
  obtain post' where nxt: "fst (loop en a ?P (tor a) [Suc k ..< ?N])
      = fst (renew (iters en (Suc k)) (tor a))
          @ LogIteration (int (Suc k) + 1) (iterations a) proxy' # post'"
    unfolding up
    by (cases "snd (session (iters en (Suc k)) proxy' (query a))")
       (simp_all add: iteration_eq [OF sel'] seq_def)
  from enters_main [OF assms(1)] obtain pre where
    "fst (main en a) = pre @ fst (seq (iteration en a ?P (tor a) k) (loop en a ?P (tor a) [Suc k ..< ?N]))
        @ PlaywrightStop # (if snd (main en a) = None then fst (clean_up (tor a)) else [])"
    by (metis fst_conv)
  then have "\<exists>pre post. fst (main en a) =
           pre @ [ContextClose c, BrowserClose b, LogTimeout (PlaywrightTimeoutError m)]
             @ fst (renew (iters en (Suc k)) (tor a))
             @ LogIteration (int (Suc k) + 1) (iterations a) proxy' # post"
    unfolding it nxt seq_None fst_conv by (metis append.assoc append_Cons)
  with enters_Suc [OF assms(1) ret k1] show ?thesis
    by blast
qed

theorem timeout_continues_witness:
  "enters env_timeout args_two 0 \<and> int 0 < iterations args_two - 1
   \<and> launch_res (iters env_timeout 0) = Inr 1 \<and> new_context_res (iters env_timeout 0) = Inr 2
   \<and> snd (run_search (iters env_timeout 0) 2 (query args_two))
        = Some (PlaywrightTimeoutError ''Timeout 45000ms exceeded'')
   \<and> enters env_timeout args_two (Suc 0)
   \<and> LogTimeout (PlaywrightTimeoutError ''Timeout 45000ms exceeded'')
        \<in> set (fst (main env_timeout args_two))
   \<and> LogIteration 2 2 None \<in> set (fst (main env_timeout args_two))"
proof -
  have h1: "enters env_timeout args_two 0"
    by (simp add: enters_def open_controller_def args_two_def)
  have h2: "int 0 < iterations args_two - 1"
    by (simp add: args_two_def)
  have h3: "launch_res (iters env_timeout 0) = Inr 1"
    and h4: "new_context_res (iters env_timeout 0) = Inr 2"
    by (simp_all add: env_timeout_def ok_env_def ok_iter_def)
  have h5: "snd (run_search (iters env_timeout 0) 2 (query args_two))
        = Some (PlaywrightTimeoutError ''Timeout 45000ms exceeded'')"
    by (simp add: env_timeout_def ok_env_def ok_iter_def run_search_def call_def)
  have sel: "select_proxy (build_proxies args_two) (Suc 0) = Inr None"
    by (simp add: select_proxy_def build_proxies_def args_two_def)
  from timeout_continues [OF h1 h2 h3 h4 h5]
  obtain pre post p where e: "enters env_timeout args_two (Suc 0)"
    and t: "fst (main env_timeout args_two) =
           pre @ [ContextClose 2, BrowserClose 1,
                  LogTimeout (PlaywrightTimeoutError ''Timeout 45000ms exceeded'')]
             @ fst (renew (iters env_timeout (Suc 0)) (tor args_two))
             @ LogIteration (int (Suc 0) + 1) (iterations args_two) p # post"
    by blast
  have "LogIteration 2 2 p \<in> set (fst (main env_timeout args_two))"
    unfolding t by (simp add: args_two_def)
  then have "LogIteration 2 2 None \<in> set (fst (main env_timeout args_two))"
    using main_log sel by fastforce
  moreover have "LogTimeout (PlaywrightTimeoutError ''Timeout 45000ms exceeded'')
        \<in> set (fst (main env_timeout args_two))"
    unfolding t by simp
  ultimately show ?thesis
    using h1 h2 h3 h4 h5 e by blast
qed

text \<open>
  Claim C6. If the run enters iteration \<open>k\<close> with \<open>--tor\<close> and the NEWNYM signal of that
  iteration raises, the failure is logged and the same iteration goes on to print its header
  and to launch its browser behind the unchanged SOCKS address; the outcome of the iteration
  is that of its session alone.
\<close>

theorem renew_failure_continues:
  assumes "enters en a k" and "tor a" and "signal_res (iters en k) = Some e"
  shows "(\<exists>pre post h. fst (main en a) =
            pre @ [SignalNewnym, LogNewnymFailed e,
                   LogIteration (int k + 1) (iterations a) (Some tor_socks),
                   Launch (Some tor_socks) h] @ post)
     \<and> snd (iteration en a (build_proxies a) (tor a) k)
         = snd (session (iters en k) (Some tor_socks) (query a))"
proof -
  let ?P = "build_proxies a"
  let ?N = "nat (iterations a)"
  from assms(1) have k: "k < ?N"
    by (simp add: enters_def)
  note sel = select_tor [OF assms(2) k]
  obtain h rest where hd: "fst (session (iters en k) (Some tor_socks) (query a))
      = Launch (Some tor_socks) h # rest"
    using session_head [of "iters en k" "Some tor_socks" "query a"]
    by (auto simp: launch_proxy_tor)
  have it: "fst (iteration en a ?P (tor a) k) =
     [SignalNewnym, LogNewnymFailed e, LogIteration (int k + 1) (iterations a) (Some tor_socks),
      Launch (Some tor_socks) h] @ rest"
    unfolding iteration_eq [OF sel] hd using assms(2,3) by (simp add: renew_def)
  have "\<exists>post. fst (seq (iteration en a ?P (tor a) k) r) =
     [SignalNewnym, LogNewnymFailed e, LogIteration (int k + 1) (iterations a) (Some tor_socks),
      Launch (Some tor_socks) h] @ post" for r
    by (cases "snd (iteration en a ?P (tor a) k)") (simp_all add: seq_def it)
  moreover from enters_main [OF assms(1)] obtain pre where
    "fst (main en a) = pre @ fst (seq (iteration en a ?P (tor a) k) (loop en a ?P (tor a) [Suc k ..< ?N]))
        @ PlaywrightStop # (if snd (main en a) = None then fst (clean_up (tor a)) else [])"
    by (metis fst_conv)
  ultimately have "\<exists>pre post. fst (main en a) =
            pre @ [SignalNewnym, LogNewnymFailed e,
                   LogIteration (int k + 1) (iterations a) (Some tor_socks),
                   Launch (Some tor_socks) h] @ post"
    by (metis append.assoc)
  moreover have "snd (iteration en a ?P (tor a) k)
         = snd (session (iters en k) (Some tor_socks) (query a))"
    by (simp add: iteration_eq [OF sel])
  ultimately show ?thesis
    by blast
qed

theorem renew_failure_continues_witness:
  "enters env_newnym_fails args_tor 0 \<and> tor args_tor
   \<and> signal_res (iters env_newnym_fails 0) = Some (OtherException ''control socket closed'')
   \<and> LogNewnymFailed (OtherException ''control socket closed'')
        \<in> set (fst (main env_newnym_fails args_tor))
   \<and> (\<exists>h. Launch (Some tor_socks) h \<in> set (fst (main env_newnym_fails args_tor)))"
proof -
  have h1: "enters env_newnym_fails args_tor 0"
    by (simp add: enters_def open_controller_def args_tor_def env_newnym_fails_def ok_env_def)
  have h2: "tor args_tor"
    by (simp add: args_tor_def)
  have h3: "signal_res (iters env_newnym_fails 0) = Some (OtherException ''control socket closed'')"
    by (simp add: env_newnym_fails_def)
  from renew_failure_continues [OF h1 h2 h3]
  obtain pre post h where t: "fst (main env_newnym_fails args_tor) =
            pre @ [SignalNewnym, LogNewnymFailed (OtherException ''control socket closed''),
                   LogIteration (int 0 + 1) (iterations args_tor) (Some tor_socks),
                   Launch (Some tor_socks) h] @ post"
    by blast
  have "LogNewnymFailed (OtherException ''control socket closed'')
        \<in> set (fst (main env_newnym_fails args_tor))"
    unfolding t by simp
  moreover have "\<exists>h. Launch (Some tor_socks) h \<in> set (fst (main env_newnym_fails args_tor))"
    unfolding t by auto
  ultimately show ?thesis
    using h1 h2 h3 by blast
qed

subsection \<open>Opening and closing the controller\<close>

lemma open_controller_fails:
  assumes "tor a"
    and "\<not> stem_installed en \<or> tor_control_passwd en = None \<or> tor_control_passwd en = Some []
         \<or> from_port_res en \<noteq> None \<or> authenticate_res en \<noteq> None"
  shows "\<exists>t0 m. open_controller en a = (t0, Inl (RuntimeError m))
           \<and> set t0 \<subseteq> {FromPort 9051} \<union> range Authenticate"
  using assms by (auto simp: open_controller_def split: option.splits)

text \<open>
  Claim C4. With \<open>--tor\<close>, if stem is missing, or \<open>TOR_CONTROL_PASSWD\<close> is unset or empty,
  or connecting or authenticating to the control port raises, \<open>main\<close> raises a
  \<open>RuntimeError\<close> (exit status 1) after at most the two control-port calls: playwright is
  never started, no browser is launched, no iteration runs and no page is opened.
\<close>

theorem open_failure_aborts:
  assumes "tor a"
    and "\<not> stem_installed en \<or> tor_control_passwd en = None \<or> tor_control_passwd en = Some []
         \<or> from_port_res en \<noteq> None \<or> authenticate_res en \<noteq> None"
  shows "(\<exists>m. snd (main en a) = Some (RuntimeError m)) \<and> exit_status (main en a) = 1
     \<and> set (fst (main en a)) \<subseteq> {FromPort 9051} \<union> range Authenticate
     \<and> (\<forall>p h. Launch p h \<notin> set (fst (main en a)))
     \<and> (\<forall>x n p. LogIteration x n p \<notin> set (fst (main en a)))
     \<and> (\<forall>c. NewPage c \<notin> set (fst (main en a)))
     \<and> PlaywrightStart \<notin> set (fst (main en a))"
proof -
  from open_controller_fails [OF assms] obtain t0 m
    where oc: "open_controller en a = (t0, Inl (RuntimeError m))"
      and t0: "set t0 \<subseteq> {FromPort 9051} \<union> range Authenticate"
    by blast
  have m: "main en a = (t0, Some (RuntimeError m))"
    by (simp add: main_def oc)
  show ?thesis
    unfolding m using t0 by (auto simp: exit_status_def)
qed

theorem open_failure_aborts_witness:
  "tor args_tor
   \<and> main env_no_passwd args_tor
       = ([], Some (RuntimeError ''Environment variable TOR_CONTROL_PASSWD is not set''))
   \<and> (\<exists>m. main env_no_stem args_tor = ([], Some (RuntimeError m)))
   \<and> main env_conn_refused args_tor = ([FromPort 9051],
         Some (RuntimeError ''Could not authenticate to Tor control port: Connection refused''))
   \<and> main env_bad_passwd args_tor = ([FromPort 9051, Authenticate ''secret''],
         Some (RuntimeError ''Could not authenticate to Tor control port: Incorrect password''))
   \<and> exit_status (main env_no_passwd args_tor) = 1
   \<and> (\<forall>p h. Launch p h \<notin> set (fst (main env_no_passwd args_tor)))"
proof -
  have h: "tor args_tor"
    by (simp add: args_tor_def)
  have p: "\<not> stem_installed env_no_passwd \<or> tor_control_passwd env_no_passwd = None
         \<or> tor_control_passwd env_no_passwd = Some []
         \<or> from_port_res env_no_passwd \<noteq> None \<or> authenticate_res env_no_passwd \<noteq> None"
    by (simp add: env_no_passwd_def)
  have "main env_no_passwd args_tor
       = ([], Some (RuntimeError ''Environment variable TOR_CONTROL_PASSWD is not set''))"
    by (simp add: main_def open_controller_def env_no_passwd_def ok_env_def args_tor_def)
  moreover have "\<exists>m. main env_no_stem args_tor = ([], Some (RuntimeError m))"
    by (simp add: main_def open_controller_def env_no_stem_def ok_env_def args_tor_def)
  moreover have "main env_conn_refused args_tor = ([FromPort 9051],
         Some (RuntimeError ''Could not authenticate to Tor control port: Connection refused''))"
    by (simp add: main_def open_controller_def env_conn_refused_def ok_env_def args_tor_def)
  moreover have "main env_bad_passwd args_tor = ([FromPort 9051, Authenticate ''secret''],
         Some (RuntimeError ''Could not authenticate to Tor control port: Incorrect password''))"
    by (simp add: main_def open_controller_def env_bad_passwd_def ok_env_def args_tor_def)
  ultimately show ?thesis
    using h open_failure_aborts [OF h p] by blast
qed

lemma loop_no_close: "ControllerClose \<notin> set (fst (loop en a proxies ctl js))"
proof
  assume "ControllerClose \<in> set (fst (loop en a proxies ctl js))"
  then obtain j where "ControllerClose \<in> set (fst (iteration en a proxies ctl j))"
    using loop_events by blast
  from iteration_events [OF this] show False
    by (auto dest: renew_events session_events)
qed

text \<open>
  How often a run that holds a controller closes it: once when the loop returns, never
  when an exception leaves the loop.
\<close>

lemma controller_close_count:
  assumes "open_controller en a = (t0, Inr True)"
  shows "count_list (fst (main en a)) ControllerClose = (if snd (main en a) = None then 1 else 0)"
proof -
  have t: "tor a"
    using open_controller_flag [OF assms] by simp
  have "ControllerClose \<notin> set t0"
    using open_controller_events [of ControllerClose en a] assms by auto
  then have "count_list t0 ControllerClose = 0"
    by (simp add: count_list_0_iff)
  moreover have "count_list (fst (loop en a (build_proxies a) (tor a) (range_py (iterations a))))
      ControllerClose = 0"
    using loop_no_close by (simp add: count_list_0_iff)
  ultimately show ?thesis
    unfolding main_run_eq [OF assms] by (simp add: clean_up_def t)
qed

text \<open>
  Claim C1, at an input where it fails. The controller is opened and authenticated, and the
  navigation of the first iteration raises an error that is not a timeout. The session is
  released by the \<open>finally\<close> block of \<open>new_browser\<close>, the exception leaves \<open>main\<close>, and
  \<open>controller.close()\<close> of line 160 is never reached.
\<close>

theorem controller_left_open:
  "main env_nav_error args_tor =
     ([FromPort 9051, Authenticate ''secret'', LogAuthenticated, PlaywrightStart,
       SignalNewnym, LogNewnymSent, Sleep 5, LogIteration 1 2 (Some tor_socks),
       Launch (Some tor_socks) (Some 1), NewContext 1 (Some 2),
       NewPage 2, Goto google_url 45000,
       ContextClose 2, BrowserClose 1, PlaywrightStop],
      Some (OtherException ''net::ERR_PROXY_CONNECTION_FAILED''))
   \<and> count_list (fst (main env_nav_error args_tor)) ControllerClose = 0"
proof -
  let ?ie = "ok_iter \<lparr> goto_res := Some (OtherException ''net::ERR_PROXY_CONNECTION_FAILED'') \<rparr>"
  have r: "range_py (iterations args_tor) = [0, 1]"
    by (simp add: range_py_def args_tor_def upt_rec)
  have o: "open_controller env_nav_error args_tor
      = ([FromPort 9051, Authenticate ''secret'', LogAuthenticated], Inr True)"
    by (simp add: open_controller_def env_nav_error_def ok_env_def args_tor_def)
  have t: "tor args_tor" "query args_tor = ''test''" "iterations args_tor = 2"
    by (simp_all add: args_tor_def)
  have sel: "select_proxy (build_proxies args_tor) 0 = Inr (Some tor_socks)"
    by (simp add: select_tor args_tor_def)
  have i: "iters env_nav_error 0 = ?ie"
    by (simp add: env_nav_error_def)
  have l: "launch_res ?ie = Inr 1" "new_context_res ?ie = Inr 2" "signal_res ?ie = None"
    by (simp_all add: ok_iter_def)
  have s: "run_search ?ie 2 ''test'' = ([NewPage 2, Goto google_url 45000],
      Some (OtherException ''net::ERR_PROXY_CONNECTION_FAILED''))"
    by (simp add: run_search_def call_def ok_iter_def)
  have it: "iteration env_nav_error args_tor (build_proxies args_tor) True 0 =
     ([SignalNewnym, LogNewnymSent, Sleep 5, LogIteration 1 2 (Some tor_socks),
       Launch (Some tor_socks) (Some 1), NewContext 1 (Some 2),
       NewPage 2, Goto google_url 45000, ContextClose 2, BrowserClose 1],
      Some (OtherException ''net::ERR_PROXY_CONNECTION_FAILED''))"
    unfolding iteration_eq [OF sel] i t session_yields [OF l(1,2)] s
    by (simp add: renew_def l(3) launch_proxy_tor)
  have m: "main env_nav_error args_tor =
     ([FromPort 9051, Authenticate ''secret'', LogAuthenticated, PlaywrightStart,
       SignalNewnym, LogNewnymSent, Sleep 5, LogIteration 1 2 (Some tor_socks),
       Launch (Some tor_socks) (Some 1), NewContext 1 (Some 2),
       NewPage 2, Goto google_url 45000,
       ContextClose 2, BrowserClose 1, PlaywrightStop],
      Some (OtherException ''net::ERR_PROXY_CONNECTION_FAILED''))"
    unfolding main_run_eq [OF o] r by (simp add: t it)
  show ?thesis
    unfolding m by simp
qed

subsection \<open>A loop of no iterations\<close>

text \<open>
  Claim C10. For \<open>iterations \<le> 0\<close> the loop body never runs: no browser is launched, no
  page is opened, no iteration header is printed. Where the controller could be opened (always,
  without \<open>--tor\<close>), \<open>main\<close> returns normally (exit status 0) after starting and stopping
  playwright, and closes the controller exactly once if it holds one.
\<close>

theorem no_iterations:
  assumes "iterations a \<le> 0"
  shows "(\<forall>p h. Launch p h \<notin> set (fst (main en a)))
     \<and> (\<forall>c. NewPage c \<notin> set (fst (main en a)))
     \<and> (\<forall>x n p. LogIteration x n p \<notin> set (fst (main en a)))
     \<and> (\<not> isl (snd (open_controller en a)) \<longrightarrow>
           main en a = (fst (open_controller en a) @ [PlaywrightStart, PlaywrightStop]
                          @ (if tor a then [ControllerClose, LogControllerClosed] else []), None)
         \<and> exit_status (main en a) = 0
         \<and> count_list (fst (main en a)) ControllerClose = (if tor a then 1 else 0))"
proof -
  have none: "ev \<in> set (fst (open_controller en a))
     \<or> ev \<in> {PlaywrightStart, PlaywrightStop, ControllerClose, LogControllerClosed}"
    if "ev \<in> set (fst (main en a))" for ev
    using main_events [OF that] assms by auto
  have a: "Launch p h \<notin> set (fst (main en a))" for p h
    using none [of "Launch p h"] open_controller_events [of "Launch p h" en a] by auto
  have b: "NewPage c \<notin> set (fst (main en a))" for c
    using none [of "NewPage c"] open_controller_events [of "NewPage c" en a] by auto
  have c: "LogIteration x n p \<notin> set (fst (main en a))" for x n p
    using none [of "LogIteration x n p"] open_controller_events [of "LogIteration x n p" en a]
    by auto
  have d: "main en a = (fst (open_controller en a) @ [PlaywrightStart, PlaywrightStop]
                          @ (if tor a then [ControllerClose, LogControllerClosed] else []), None)
         \<and> exit_status (main en a) = 0
         \<and> count_list (fst (main en a)) ControllerClose = (if tor a then 1 else 0)"
    if "\<not> isl (snd (open_controller en a))"
  proof -
    from that obtain t0 ctl where oc: "open_controller en a = (t0, Inr ctl)"
      by (cases "open_controller en a"; cases "snd (open_controller en a)") auto
    have r: "range_py (iterations a) = []"
      using assms by (simp add: range_py_def)
    have m: "main en a = (t0 @ [PlaywrightStart, PlaywrightStop]
                          @ (if tor a then [ControllerClose, LogControllerClosed] else []), None)"
      unfolding main_run_eq [OF oc] r by (simp add: clean_up_def)
    have "ControllerClose \<notin> set t0"
      using open_controller_events [of ControllerClose en a] oc by auto
    then have "count_list t0 ControllerClose = 0"
      by (simp add: count_list_0_iff)
    then show ?thesis
      unfolding m by (simp add: oc exit_status_def)
  qed
  from a b c d show ?thesis
    by blast
qed

theorem no_iterations_witness:
  "iterations args_tor_none \<le> 0 \<and> iterations args_negative \<le> 0
   \<and> \<not> isl (snd (open_controller ok_env args_tor_none))
   \<and> \<not> isl (snd (open_controller ok_env args_negative))
   \<and> main ok_env args_tor_none =
       ([FromPort 9051, Authenticate ''secret'', LogAuthenticated, PlaywrightStart,
         PlaywrightStop, ControllerClose, LogControllerClosed], None)
   \<and> main ok_env args_negative = ([PlaywrightStart, PlaywrightStop], None)
   \<and> exit_status (main ok_env args_tor_none) = 0
   \<and> exit_status (main ok_env args_negative) = 0
   \<and> count_list (fst (main ok_env args_tor_none)) ControllerClose = 1"
proof -
  have h1: "iterations args_tor_none \<le> 0" and h2: "iterations args_negative \<le> 0"
    by (simp_all add: args_tor_none_def args_negative_def)
  have o1: "open_controller ok_env args_tor_none
      = ([FromPort 9051, Authenticate ''secret'', LogAuthenticated], Inr True)"
    by (simp add: open_controller_def ok_env_def args_tor_none_def)
  have o2: "open_controller ok_env args_negative = ([], Inr False)"
    by (simp add: open_controller_def args_negative_def)
  have t: "tor args_tor_none" "\<not> tor args_negative"
    by (simp_all add: args_tor_none_def args_negative_def)
  from no_iterations [OF h1, of ok_env] no_iterations [OF h2, of ok_env]
  show ?thesis
    using h1 h2 by (simp add: o1 o2 t exit_status_def)
qed

subsection \<open>The search task\<close>

lemma seq_assoc: "seq (seq r1 r2) r3 = seq r1 (seq r2 r3)"
  by (cases "snd r1"; cases "snd r2") (simp_all add: seq_def)

lemma seq_unit: "seq r ([], None) = r"
  by (cases r; cases "snd r") (simp_all add: seq_def)

lemma run_search_split:
  "run_search ie c q = seq (submit_query ie c q) (seq (result_block ie) (emit (Sleep 3)))"
  by (simp add: run_search_def submit_query_def seq_assoc seq_unit)

lemma submit_query_last:
  assumes "snd (submit_query ie c q) = None"
  shows "\<exists>t. fst (submit_query ie c q) = t @ [Press query_input_selector ''Enter'']"
proof -
  let ?b = "seq_all [call (NewPage c) (new_page_res ie), call (Goto google_url 45000) (goto_res ie),
       consent_block ie, call (Fill query_input_selector q) (fill_res ie)]"
  have s: "submit_query ie c q = seq ?b (call (Press query_input_selector ''Enter'') (press_res ie))"
    by (simp add: submit_query_def seq_assoc seq_unit)
  from assms have "snd ?b = None"
    unfolding s by (simp add: snd_seq_None)
  then have "fst (submit_query ie c q) = fst ?b @ [Press query_input_selector ''Enter'']"
    unfolding s by (simp add: seq_def call_def)
  then show ?thesis
    by blast
qed

text \<open>
  Claim C9. Once the query is submitted (the last call was the press of Enter),
  \<open>run_search\<close> waits for an \<open>h3\<close> element with a timeout of 20000 ms, that is 20 s. If
  the wait raises, the exception leaves \<open>run_search\<close> with nothing else done. Otherwise it
  asks for the first \<open>h3\<close>: if there is one it is clicked; if there is none a warning is
  printed, nothing is clicked, and the task sleeps 3 s and returns normally.
\<close>

theorem result_wait_then_click:
  assumes "snd (submit_query ie c q) = None"
  shows "(\<exists>t. fst (submit_query ie c q) = t @ [Press query_input_selector ''Enter''])
   \<and> (\<forall>e. wait_res ie = Some e \<longrightarrow>
         run_search ie c q
           = (fst (submit_query ie c q) @ [WaitForSelector ''h3'' 20000], Some e))
   \<and> (wait_res ie = None \<and> first_result_res ie = Inr True \<longrightarrow>
         run_search ie c q
           = (fst (submit_query ie c q)
                @ [WaitForSelector ''h3'' 20000, QuerySelector ''h3'', Click ''h3'']
                @ (if click_res ie = None then [Sleep 3] else []),
              click_res ie))
   \<and> (wait_res ie = None \<and> first_result_res ie = Inr False \<longrightarrow>
         run_search ie c q
           = (fst (submit_query ie c q)
                @ [WaitForSelector ''h3'' 20000, QuerySelector ''h3'', WarnNoResults, Sleep 3],
              None))"
proof -
  have r: "run_search ie c q
      = (fst (submit_query ie c q) @ fst (seq (result_block ie) (emit (Sleep 3))),
         snd (seq (result_block ie) (emit (Sleep 3))))"
    unfolding run_search_split using assms by (simp add: seq_def)
  have a: "seq (result_block ie) (emit (Sleep 3)) = ([WaitForSelector ''h3'' 20000], Some e)"
    if "wait_res ie = Some e" for e
    using that by (simp add: result_block_def call_def result_selector_def)
  have b: "seq (result_block ie) (emit (Sleep 3))
      = ([WaitForSelector ''h3'' 20000, QuerySelector ''h3'', Click ''h3'']
           @ (if click_res ie = None then [Sleep 3] else []), click_res ie)"
    if "wait_res ie = None" and "first_result_res ie = Inr True"
    using that
    by (cases "click_res ie") (simp_all add: result_block_def call_def emit_def result_selector_def)
  have c: "seq (result_block ie) (emit (Sleep 3))
      = ([WaitForSelector ''h3'' 20000, QuerySelector ''h3'', WarnNoResults, Sleep 3], None)"
    if "wait_res ie = None" and "first_result_res ie = Inr False"
    using that by (simp add: result_block_def call_def emit_def result_selector_def)
  show ?thesis
    using submit_query_last [OF assms] a b c unfolding r by auto
qed

lemma ok_submit:
  assumes "new_page_res ie = None" and "goto_res ie = None" and "consent_res ie = Inr False"
    and "fill_res ie = None" and "press_res ie = None"
  shows "submit_query ie c q =
     ([NewPage c, Goto google_url 45000, QuerySelector reject_all_selector,
       Fill query_input_selector q, Press query_input_selector ''Enter''], None)"
  using assms by (simp add: submit_query_def consent_block_def call_def emit_def)

theorem result_wait_then_click_witness:
  "snd (submit_query ok_iter 2 ''test'') = None
   \<and> snd (submit_query iter_wait_timeout 2 ''test'') = None
   \<and> snd (submit_query iter_no_heading 2 ''test'') = None
   \<and> wait_res iter_wait_timeout = Some (PlaywrightTimeoutError ''Timeout 20000ms exceeded'')
   \<and> run_search iter_wait_timeout 2 ''test'' =
       ([NewPage 2, Goto google_url 45000, QuerySelector reject_all_selector,
         Fill query_input_selector ''test'', Press query_input_selector ''Enter'',
         WaitForSelector ''h3'' 20000],
        Some (PlaywrightTimeoutError ''Timeout 20000ms exceeded''))
   \<and> wait_res ok_iter = None \<and> first_result_res ok_iter = Inr True
   \<and> run_search ok_iter 2 ''test'' =
       ([NewPage 2, Goto google_url 45000, QuerySelector reject_all_selector,
         Fill query_input_selector ''test'', Press query_input_selector ''Enter'',
         WaitForSelector ''h3'' 20000, QuerySelector ''h3'', Click ''h3'', Sleep 3], None)
   \<and> wait_res iter_no_heading = None \<and> first_result_res iter_no_heading = Inr False
   \<and> run_search iter_no_heading 2 ''test'' =
       ([NewPage 2, Goto google_url 45000, QuerySelector reject_all_selector,
         Fill query_input_selector ''test'', Press query_input_selector ''Enter'',
         WaitForSelector ''h3'' 20000, QuerySelector ''h3'', WarnNoResults, Sleep 3], None)"
proof -
  have s1: "submit_query ok_iter 2 ''test'' =
     ([NewPage 2, Goto google_url 45000, QuerySelector reject_all_selector,
       Fill query_input_selector ''test'', Press query_input_selector ''Enter''], None)"
    by (rule ok_submit) (simp_all add: ok_iter_def)
  have s2: "submit_query iter_wait_timeout 2 ''test'' =
     ([NewPage 2, Goto google_url 45000, QuerySelector reject_all_selector,
       Fill query_input_selector ''test'', Press query_input_selector ''Enter''], None)"
    by (rule ok_submit) (simp_all add: iter_wait_timeout_def ok_iter_def)
  have s3: "submit_query iter_no_heading 2 ''test'' =
     ([NewPage 2, Goto google_url 45000, QuerySelector reject_all_selector,
       Fill query_input_selector ''test'', Press query_input_selector ''Enter''], None)"
    by (rule ok_submit) (simp_all add: iter_no_heading_def ok_iter_def)
  have h1: "snd (submit_query ok_iter 2 ''test'') = None"
    and h2: "snd (submit_query iter_wait_timeout 2 ''test'') = None"
    and h3: "snd (submit_query iter_no_heading 2 ''test'') = None"
    by (simp_all add: s1 s2 s3)
  have e: "wait_res iter_wait_timeout = Some (PlaywrightTimeoutError ''Timeout 20000ms exceeded'')"
    "wait_res ok_iter = None" "first_result_res ok_iter = Inr True" "click_res ok_iter = None"
    "wait_res iter_no_heading = None" "first_result_res iter_no_heading = Inr False"
    by (simp_all add: iter_wait_timeout_def iter_no_heading_def ok_iter_def)
  from result_wait_then_click [OF h1] result_wait_then_click [OF h2]
    result_wait_then_click [OF h3]
  show ?thesis
    using h1 h2 h3 e by (simp add: s1 s2 s3)
qed

subsection \<open>A run without proxy\<close>

lemma snd_catch_timeout: "snd (catch_timeout (t, r)) = None \<longleftrightarrow> \<not> uncaught r"
  by (cases r rule: uncaught.cases) simp_all

lemma fst_catch_timeout:
  "fst (catch_timeout (t, r)) = t @ (case r of Some (PlaywrightTimeoutError m) \<Rightarrow> [LogTimeout (PlaywrightTimeoutError m)] | _ \<Rightarrow> [])"
  by (cases r rule: uncaught.cases) simp_all

lemma filter_catch_timeout:
  assumes "\<And>e. \<not> P (LogTimeout e)"
  shows "filter P (fst (catch_timeout (t, r))) = filter P t"
  using assms by (cases r rule: uncaught.cases) simp_all

lemma page_event_not_launch: "page_event ev \<Longrightarrow> \<not> is_launch ev"
  by (cases ev) simp_all

lemma run_search_no_launch: "filter is_launch (fst (run_search ie c q)) = []"
  by (auto simp: filter_empty_conv dest: run_search_events page_event_not_launch)

lemma consent_block_no_new_page: "ev \<in> set (fst (consent_block ie)) \<Longrightarrow> \<not> is_new_page ev"
  unfolding consent_block_def Let_def fst_swallow_timeout
  by (cases "consent_res ie") (auto simp: call_def emit_def split: if_splits)

lemma result_block_no_new_page: "ev \<in> set (fst (result_block ie)) \<Longrightarrow> \<not> is_new_page ev"
  unfolding result_block_def
  by (drule set_mp [OF set_fst_seq], cases "first_result_res ie")
     (auto simp: call_def emit_def split: if_splits)

text \<open>A search opens exactly one page, as its first call.\<close>

lemma run_search_one_page: "filter is_new_page (fst (run_search ie c q)) = [NewPage c]"
proof -
  let ?rest = "seq_all [call (Goto google_url 45000) (goto_res ie), consent_block ie,
       call (Fill query_input_selector q) (fill_res ie),
       call (Press query_input_selector ''Enter'') (press_res ie),
       result_block ie, emit (Sleep 3)]"
  have "\<not> is_new_page ev" if "ev \<in> set (fst ?rest)" for ev
    using set_fst_seq_all [OF that]
    by (auto simp: call_def emit_def dest: consent_block_no_new_page result_block_no_new_page)
  then have "filter is_new_page (fst ?rest) = []"
    by (simp add: filter_empty_conv)
  moreover have "run_search ie c q = seq (call (NewPage c) (new_page_res ie)) ?rest"
    by (simp add: run_search_def)
  ultimately show ?thesis
    by (cases "new_page_res ie") (simp_all add: seq_def call_def)
qed

lemma length_filter_concat_one:
  assumes "\<And>j. j \<in> set js \<Longrightarrow> length (filter P (f j)) = 1"
  shows "length (filter P (concat (map f js))) = length js"
  using assms by (induction js) simp_all

text \<open>
  Claim C8. Without \<open>--tor\<close> and with an empty proxy list every index selects no proxy, and
  every launch of a run is direct. End to end: if in every iteration the browser and the
  context can be acquired and the search returns or times out, the run is, iteration after
  iteration, the header without proxy, one launch without proxy, one context, one search
  with the query of the command line, and the release of both; so there are exactly
  \<open>iterations\<close> launches and exactly \<open>iterations\<close> searches. The instance that follows
  is the scenario of the specification: query \<open>test\<close>, three iterations.
\<close>

theorem direct_connection:
  assumes "\<not> tor a" and "proxy_list a = []"
  shows "(\<forall>i. select_proxy (build_proxies a) i = Inr None)
   \<and> (\<forall>p h. Launch p h \<in> set (fst (main en a)) \<longrightarrow> p = None)
   \<and> ((\<forall>i < nat (iterations a).
          launch_res (iters en i) = Inr (bs i) \<and> new_context_res (iters en i) = Inr (cs i)
          \<and> \<not> uncaught (snd (run_search (iters en i) (cs i) (query a)))) \<longrightarrow>
        main en a =
          (PlaywrightStart # concat (map (\<lambda>i.
              LogIteration (int i + 1) (iterations a) None
              # fst (catch_timeout
                  ([Launch None (Some (bs i)), NewContext (bs i) (Some (cs i))]
                     @ fst (run_search (iters en i) (cs i) (query a))
                     @ [ContextClose (cs i), BrowserClose (bs i)],
                   snd (run_search (iters en i) (cs i) (query a)))))
            (range_py (iterations a))) @ [PlaywrightStop], None)
        \<and> length (filter is_launch (fst (main en a))) = nat (iterations a)
        \<and> length (filter is_new_page (fst (main en a))) = nat (iterations a))"
proof -
  let ?P = "build_proxies a"
  let ?N = "nat (iterations a)"
  let ?ses = "\<lambda>i. catch_timeout
                  ([Launch None (Some (bs i)), NewContext (bs i) (Some (cs i))]
                     @ fst (run_search (iters en i) (cs i) (query a))
                     @ [ContextClose (cs i), BrowserClose (bs i)],
                   snd (run_search (iters en i) (cs i) (query a)))"
  let ?it = "\<lambda>i. LogIteration (int i + 1) (iterations a) None # fst (?ses i)"
  have sel: "select_proxy ?P i = Inr None" for i
    using assms by (simp add: select_proxy_def build_proxies_def)
  have lp: "launch_proxy None = None"
    by (simp add: launch_proxy_def)
  have launch: "p = None" if "Launch p h \<in> set (fst (main en a))" for p h
    using main_launch [OF that] sel lp by auto
  have oc: "open_controller en a = ([], Inr False)"
    using assms by (simp add: open_controller_def)
  have run: "main en a = (PlaywrightStart # concat (map ?it (range_py (iterations a)))
                 @ [PlaywrightStop], None)
        \<and> length (filter is_launch (fst (main en a))) = ?N
        \<and> length (filter is_new_page (fst (main en a))) = ?N"
    if ok: "\<forall>i < ?N. launch_res (iters en i) = Inr (bs i)
          \<and> new_context_res (iters en i) = Inr (cs i)
          \<and> \<not> uncaught (snd (run_search (iters en i) (cs i) (query a)))"
  proof -
    have it: "iteration en a ?P (tor a) i = (?it i, None)" if "i < ?N" for i
    proof -
      from ok that have l: "launch_res (iters en i) = Inr (bs i)"
        and c: "new_context_res (iters en i) = Inr (cs i)"
        and u: "\<not> uncaught (snd (run_search (iters en i) (cs i) (query a)))"
        by simp_all
      have "snd (?ses i) = None"
        using u by (simp add: snd_catch_timeout)
      then show ?thesis
        unfolding iteration_eq [OF sel] session_yields [OF l c] lp
        using assms(1) by (simp add: renew_def)
    qed
    have "list_all (\<lambda>j. snd (iteration en a ?P (tor a) j) = None) (range_py (iterations a))"
      by (simp add: list_all_iff range_py_def it)
    from loop_all_return [OF this]
    have "loop en a ?P (tor a) (range_py (iterations a))
        = (concat (map (\<lambda>j. fst (iteration en a ?P (tor a) j)) (range_py (iterations a))), None)" .
    also have "map (\<lambda>j. fst (iteration en a ?P (tor a) j)) (range_py (iterations a))
        = map ?it (range_py (iterations a))"
      by (rule map_cong) (simp_all add: range_py_def it)
    finally have l: "loop en a ?P (tor a) (range_py (iterations a))
        = (concat (map ?it (range_py (iterations a))), None)" .
    have m: "main en a = (PlaywrightStart # concat (map ?it (range_py (iterations a)))
                 @ [PlaywrightStop], None)"
      unfolding main_run_eq [OF oc] l using assms(1) by (simp add: clean_up_def)
    have "length (filter is_launch (?it i)) = 1" for i
      by (simp add: filter_catch_timeout run_search_no_launch)
    then have n1: "length (filter is_launch (concat (map ?it (range_py (iterations a))))) = ?N"
      using length_filter_concat_one [of "range_py (iterations a)" is_launch ?it]
      by (simp add: range_py_def)
    have "length (filter is_new_page (?it i)) = 1" for i
      by (simp add: filter_catch_timeout run_search_one_page)
    then have n2: "length (filter is_new_page (concat (map ?it (range_py (iterations a))))) = ?N"
      using length_filter_concat_one [of "range_py (iterations a)" is_new_page ?it]
      by (simp add: range_py_def)
    show ?thesis
      unfolding m using n1 n2 by simp
  qed
  from sel launch run show ?thesis
    by blast
qed

theorem direct_connection_witness:
  "\<not> tor args_test \<and> proxy_list args_test = [] \<and> query args_test = ''test''
   \<and> iterations args_test = 3
   \<and> launch_res (iters ok_env 0) = Inr 1 \<and> new_context_res (iters ok_env 0) = Inr 2
   \<and> \<not> uncaught (snd (run_search (iters ok_env 0) 2 (query args_test)))
   \<and> launch_res (iters ok_env 1) = Inr 1 \<and> new_context_res (iters ok_env 1) = Inr 2
   \<and> \<not> uncaught (snd (run_search (iters ok_env 1) 2 (query args_test)))
   \<and> launch_res (iters ok_env 2) = Inr 1 \<and> new_context_res (iters ok_env 2) = Inr 2
   \<and> \<not> uncaught (snd (run_search (iters ok_env 2) 2 (query args_test)))
   \<and> select_proxy (build_proxies args_test) 0 = Inr None
   \<and> select_proxy (build_proxies args_test) 1 = Inr None
   \<and> select_proxy (build_proxies args_test) 2 = Inr None
   \<and> Launch None (Some 1) \<in> set (fst (main ok_env args_test))
   \<and> main ok_env args_test =
       (PlaywrightStart #
        (LogIteration 1 3 None # Launch None (Some 1) # NewContext 1 (Some 2)
           # fst (run_search ok_iter 2 ''test'') @ [ContextClose 2, BrowserClose 1]) @
        (LogIteration 2 3 None # Launch None (Some 1) # NewContext 1 (Some 2)
           # fst (run_search ok_iter 2 ''test'') @ [ContextClose 2, BrowserClose 1]) @
        (LogIteration 3 3 None # Launch None (Some 1) # NewContext 1 (Some 2)
           # fst (run_search ok_iter 2 ''test'') @ [ContextClose 2, BrowserClose 1]) @
        [PlaywrightStop], None)
   \<and> length (filter is_launch (fst (main ok_env args_test))) = 3
   \<and> length (filter is_new_page (fst (main ok_env args_test))) = 3"
proof -
  have h: "\<not> tor args_test" "proxy_list args_test = []"
    by (simp_all add: args_test_def)
  have a: "query args_test = ''test''" "iterations args_test = 3"
    by (simp_all add: args_test_def)
  have r: "range_py (iterations args_test) = [0, 1, 2]"
    by (simp add: range_py_def args_test_def upt_rec)
  have i: "iters ok_env i = ok_iter" for i
    by (simp add: ok_env_def)
  have l: "launch_res ok_iter = Inr 1" "new_context_res ok_iter = Inr 2"
    by (simp_all add: ok_iter_def)
  have ok: "\<forall>i < nat (iterations args_test).
          launch_res (iters ok_env i) = Inr 1 \<and> new_context_res (iters ok_env i) = Inr 2
          \<and> \<not> uncaught (snd (run_search (iters ok_env i) 2 (query args_test)))"
    by (simp add: i l ok_search_returns)
  note t = direct_connection [OF h, of ok_env "\<lambda>i. 1" "\<lambda>i. 2"]
  note sel = t [THEN conjunct1, rule_format]
  note run = t [THEN conjunct2, THEN conjunct2, rule_format, OF ok [rule_format]]
  have m: "main ok_env args_test =
       (PlaywrightStart #
        (LogIteration 1 3 None # Launch None (Some 1) # NewContext 1 (Some 2)
           # fst (run_search ok_iter 2 ''test'') @ [ContextClose 2, BrowserClose 1]) @
        (LogIteration 2 3 None # Launch None (Some 1) # NewContext 1 (Some 2)
           # fst (run_search ok_iter 2 ''test'') @ [ContextClose 2, BrowserClose 1]) @
        (LogIteration 3 3 None # Launch None (Some 1) # NewContext 1 (Some 2)
           # fst (run_search ok_iter 2 ''test'') @ [ContextClose 2, BrowserClose 1]) @
        [PlaywrightStop], None)"
    using run [THEN conjunct1] unfolding r by (simp add: i a ok_search_returns)
  have n: "length (filter is_launch (fst (main ok_env args_test))) = 3"
    "length (filter is_new_page (fst (main ok_env args_test))) = 3"
    using run [THEN conjunct2] by (simp_all add: a)
  have e: "Launch None (Some 1) \<in> set (fst (main ok_env args_test))"
    unfolding m by simp
  show ?thesis
    using h a n e sel m by (simp add: i l ok_search_returns)
qed

subsection \<open>The lifetime of a browser session\<close>

lemma peak_ge: "length live \<le> peak t live"
  by (cases t) simp_all

lemma peak_append:
  "peak (t1 @ t2) live = max (peak t1 live) (peak t2 (fold step_live t1 live))"
proof (induction t1 arbitrary: live)
  case Nil
  then show ?case by (simp add: max_absorb2 peak_ge)
next
  case (Cons ev t1)
  then show ?case by (simp add: max.assoc)
qed

lemma prefix_le_peak: "length (fold step_live (take m t) live) \<le> peak t live"
proof (induction t arbitrary: m live)
  case Nil
  then show ?case by simp
next
  case (Cons ev t)
  show ?case
  proof (cases m)
    case 0
    then show ?thesis by simp
  next
    case (Suc m')
    have "length (fold step_live (take m' t) (step_live ev live)) \<le> peak t (step_live ev live)"
      by (rule Cons.IH)
    then show ?thesis
      using Suc by simp
  qed
qed

lemma balanced_Nil [simp]: "balanced []"
  by (simp add: balanced_def)

lemma balanced_append: "balanced t1 \<Longrightarrow> balanced t2 \<Longrightarrow> balanced (t1 @ t2)"
  by (simp add: balanced_def peak_append)

lemma neutral_balanced:
  assumes "\<And>ev live. ev \<in> set t \<Longrightarrow> step_live ev live = live"
  shows "fold step_live t live = live \<and> peak t live = length live"
  using assms by (induction t arbitrary: live) simp_all

lemma page_event_neutral: "page_event ev \<Longrightarrow> step_live ev live = live"
  by (cases ev) simp_all

lemma run_search_neutral:
  "fold step_live (fst (run_search ie c q)) live = live
   \<and> peak (fst (run_search ie c q)) live = length live"
  by (rule neutral_balanced) (auto dest: run_search_events page_event_neutral)

lemma balanced_session: "balanced (fst (session ie proxy q))"
proof (cases "launch_res ie")
  case (Inl e)
  then show ?thesis
    by (cases e) (simp_all add: session_def new_browser_def balanced_def)
next
  case (Inr b)
  note b = this
  show ?thesis
  proof (cases "new_context_res ie")
    case (Inl e)
    with b show ?thesis
      by (cases e) (simp_all add: session_def new_browser_def balanced_def)
  next
    case (Inr c)
    have "balanced ([Launch (launch_proxy proxy) (Some b), NewContext b (Some c)]
        @ fst (run_search ie c q) @ [ContextClose c, BrowserClose b] @ t)"
      if "t = [] \<or> (\<exists>e. t = [LogTimeout e])" for t
      using that by (auto simp: balanced_def peak_append run_search_neutral)
    moreover have "\<exists>t. fst (session ie proxy q) =
        [Launch (launch_proxy proxy) (Some b), NewContext b (Some c)]
        @ fst (run_search ie c q) @ [ContextClose c, BrowserClose b] @ t
        \<and> (t = [] \<or> (\<exists>e. t = [LogTimeout e]))"
      unfolding session_yields [OF b Inr]
      by (cases "snd (run_search ie c q)" rule: uncaught.cases) simp_all
    ultimately show ?thesis
      by metis
  qed
qed

lemma balanced_renew: "balanced (fst (renew ie ctl))"
  by (cases "signal_res ie") (simp_all add: renew_def balanced_def)

lemma balanced_iteration: "balanced (fst (iteration en a proxies ctl j))"
proof (cases "select_proxy proxies j")
  case (Inl e)
  then show ?thesis by (simp add: iteration_def)
next
  case (Inr proxy)
  have "balanced [LogIteration (int j + 1) (iterations a) proxy]"
    by (simp add: balanced_def)
  then have "balanced (fst (renew (iters en j) ctl)
      @ [LogIteration (int j + 1) (iterations a) proxy]
      @ fst (session (iters en j) proxy (query a)))"
    by (intro balanced_append balanced_renew balanced_session)
  then show ?thesis
    by (simp add: iteration_eq [OF Inr])
qed

lemma balanced_seq: "balanced (fst r1) \<Longrightarrow> balanced (fst r2) \<Longrightarrow> balanced (fst (seq r1 r2))"
  by (cases "snd r1") (simp_all add: seq_def balanced_append)

lemma balanced_loop: "balanced (fst (loop en a proxies ctl js))"
  by (induction js) (simp_all add: balanced_seq balanced_iteration)

lemma balanced_main: "balanced (fst (main en a))"
proof (cases en a rule: main_cases)
  case (abort t0 e)
  have "step_live ev live = live" if "ev \<in> set t0" for ev live
    using open_controller_events [of ev en a] that abort(1) by auto
  from neutral_balanced [of t0 "[]", OF this] show ?thesis
    by (simp add: abort balanced_def)
next
  case (run t0 ctl)
  have "step_live ev live = live" if "ev \<in> set t0" for ev live
    using open_controller_events [of ev en a] that run(1) by auto
  from neutral_balanced [of t0 "[]", OF this] have t0: "balanced t0"
    by (simp add: balanced_def)
  have "balanced (fst (sync_playwright (loop en a (build_proxies a) ctl (range_py (iterations a)))))"
    using balanced_loop [of en a "build_proxies a" ctl "range_py (iterations a)"]
    by (simp add: sync_playwright_def balanced_def peak_append)
  moreover have "balanced (fst (clean_up ctl))"
    by (simp add: clean_up_def balanced_def)
  ultimately show ?thesis
    unfolding run(2) fst_conv by (intro balanced_append t0 balanced_seq)
qed

text \<open>
  Claim C7. Every call of \<open>new_browser\<close> launches a browser of its own, with no pool and
  no handle kept from an earlier call; when the launch and the new context succeed, the
  trace of the call is the launch, the context, the body of the \<open>with\<close> statement, and the
  close of that context and of that browser, whether the body returned or raised. In every
  run of \<open>main\<close>, after any number of events at most one context is live, and none is live
  at the end.
\<close>

theorem session_lifetimes:
  "(launch_res ie = Inr b \<and> new_context_res ie = Inr c \<longrightarrow>
      new_browser ie proxy body =
        ([Launch (launch_proxy proxy) (Some b), NewContext b (Some c)]
           @ fst (body c) @ [ContextClose c, BrowserClose b],
         snd (body c)))
   \<and> (\<exists>h t. fst (new_browser ie proxy body) = Launch (launch_proxy proxy) h # t)
   \<and> (\<forall>m. length (live_contexts (take m (fst (main en a)))) \<le> 1)
   \<and> live_contexts (fst (main en a)) = []"
proof -
  have a: "new_browser ie proxy body =
        ([Launch (launch_proxy proxy) (Some b), NewContext b (Some c)]
           @ fst (body c) @ [ContextClose c, BrowserClose b],
         snd (body c))"
    if "launch_res ie = Inr b" and "new_context_res ie = Inr c"
    using that by (simp add: new_browser_def)
  have b: "\<exists>h t. fst (new_browser ie proxy body) = Launch (launch_proxy proxy) h # t"
    by (cases "launch_res ie"; cases "new_context_res ie") (simp_all add: new_browser_def)
  have bal: "peak (fst (main en a)) [] \<le> 1" "fold step_live (fst (main en a)) [] = []"
    using balanced_main [of en a] by (simp_all add: balanced_def)
  have c: "length (live_contexts (take m (fst (main en a)))) \<le> 1" for m
    unfolding live_contexts_def
    using prefix_le_peak [of m "fst (main en a)" "[]"] bal(1) by simp
  have d: "live_contexts (fst (main en a)) = []"
    by (simp add: live_contexts_def bal(2))
  from a b c d show ?thesis
    by blast
qed

theorem session_lifetimes_witness:
  "launch_res ok_iter = Inr 1 \<and> new_context_res ok_iter = Inr 2
   \<and> new_browser ok_iter None (\<lambda>c. ([NewPage c], Some (OtherException ''crash'')))
       = ([Launch None (Some 1), NewContext 1 (Some 2), NewPage 2,
           ContextClose 2, BrowserClose 1], Some (OtherException ''crash''))
   \<and> live_contexts (take 10 (fst (main ok_env args_tor))) = [2]
   \<and> length (live_contexts (take 10 (fst (main ok_env args_tor)))) \<le> 1
   \<and> live_contexts (fst (main ok_env args_tor)) = []"
proof -
  have h: "launch_res ok_iter = Inr 1 \<and> new_context_res ok_iter = Inr 2"
    by (simp add: ok_iter_def)
  note t = session_lifetimes [of ok_iter 1 2 None
      "\<lambda>c. ([NewPage c], Some (OtherException ''crash''))" ok_env args_tor]
  have "new_browser ok_iter None (\<lambda>c. ([NewPage c], Some (OtherException ''crash'')))
       = ([Launch None (Some 1), NewContext 1 (Some 2), NewPage 2,
           ContextClose 2, BrowserClose 1], Some (OtherException ''crash''))"
    using t [THEN conjunct1, rule_format, OF h] by (simp add: launch_proxy_def)
  moreover have "live_contexts (take 10 (fst (main ok_env args_tor))) = [2]"
    by (simp add: ok_tor_run live_contexts_def)
  moreover have "length (live_contexts (take 10 (fst (main ok_env args_tor)))) \<le> 1"
    using t [THEN conjunct2, THEN conjunct2, THEN conjunct1] by blast
  moreover have "live_contexts (fst (main ok_env args_tor)) = []"
    using t [THEN conjunct2, THEN conjunct2, THEN conjunct2] .
  ultimately show ?thesis
    using h by blast
qed

end
